theory Spec2Isabelle
  imports Main
begin

section \<open>The note editor's save coordinator (frontend, dashboard/NoteEditor.tsx)\<close>

text \<open>
  The component \<open>NoteEditor\<close> is embedded as a state record and one function per
  handler. An \<open>async\<close> handler is split at its \<open>await\<close>: the part that runs up to the
  call of the Notes Service, and the part that runs when the promise settles. The
  browser around the component (its timers, the promises in flight, the clock, the
  trace of observable effects) is part of the state, so that a run of the component is
  a fold of \<open>step\<close> over a list of inputs. Each part of a handler runs to its end and
  its state updates are rendered, with the effects they trigger, before the next input.
\<close>

subsection \<open>JavaScript helpers\<close>

definition is_space :: "char \<Rightarrow> bool" where
  \<comment> \<open>white space and line terminators of \<open>String.prototype.trim\<close>, in the 8-bit range\<close>
  "is_space c = (c \<in> set [CHR 0x09, CHR 0x0A, CHR 0x0B, CHR 0x0C, CHR 0x0D, CHR 0x20, CHR 0xA0])"

definition trim :: "string \<Rightarrow> string" where
  "trim x = rev (dropWhile is_space (rev (dropWhile is_space x)))"

definition or_undefined :: "string \<Rightarrow> string option" where
  \<comment> \<open>\<open>x || undefined\<close>\<close>
  "or_undefined x = (if x = [] then None else Some x)"

definition or_default :: "string \<Rightarrow> string \<Rightarrow> string" where
  \<comment> \<open>\<open>x || d\<close> on strings\<close>
  "or_default x d = (if x = [] then d else x)"

definition truthy :: "string option \<Rightarrow> bool" where
  \<comment> \<open>a string that is neither null, undefined nor empty\<close>
  "truthy x = (case x of None \<Rightarrow> False | Some v \<Rightarrow> v \<noteq> [])"

definition js_or :: "string option \<Rightarrow> string option \<Rightarrow> string option" where
  \<comment> \<open>\<open>a || b\<close>\<close>
  "js_or a b = (if truthy a then a else b)"

subsection \<open>Data\<close>

datatype SaveStatus = Saved | Saving | Unsaved

record Note =
  note_id :: string
  note_title :: "string option"
  note_content :: string

text \<open>
  The calls of \<open>notesApi\<close>: \<open>CreateNote title content\<close> carries a \<open>CreateNoteData\<close>,
  \<open>EditNote id title content\<close> an \<open>EditNoteData\<close>.
\<close>

datatype api_call =
    GetSingleNote string
  | CreateNote "string option" string
  | EditNote string "string option" string
  | DeleteNote string

text \<open>
  A promise of \<open>notesApi\<close> is fulfilled with an \<open>ApiResponse<Note>\<close>, of which the
  component reads the optional field \<open>data\<close>, or rejected with an error, of which it
  reads \<open>message\<close>.
\<close>

datatype outcome = Fulfilled "Note option" | Rejected string

datatype origin = FromFetchNote | FromHandleAutoSave | FromHandleSave | FromHandleDelete

record request =
  req_id :: nat
  req_origin :: origin
  req_call :: api_call

text \<open>
  The timer callback \<open>() => { handleAutoSave(); }\<close> closes over the \<open>handleAutoSave\<close>
  of the render in which the effect ran, and so over that render's \<open>title\<close>,
  \<open>content\<close>, \<open>saving\<close> and \<open>autoSaveStatus\<close>. The refs are read when it runs.
\<close>

record closure =
  c_title :: string
  c_content :: string
  c_saving :: bool
  c_autoSaveStatus :: SaveStatus

record timer =
  t_handle :: nat
  t_due :: nat
  t_callback :: closure

datatype effect =
    Called api_call
  | Returned api_call outcome
  | Navigated string
  | Confirmed string bool
  | ReplacedState string

record editor =
  \<comment> \<open>\<open>useParams\<close>, \<open>useState\<close> and \<open>useRef\<close> of the component\<close>
  route_id :: "string option"
  note_loaded :: "Note option"
  title :: string
  content :: string
  loading :: bool
  saving :: bool
  error :: "string option"
  autoSaveStatus :: SaveStatus
  autoSaveTimerRef :: "nat option"
  createdNoteIdRef :: "string option"
  \<comment> \<open>whether the last run of the debounce effect returned its cleanup function\<close>
  cleanup :: bool
  mounted :: bool
  \<comment> \<open>the browser: pending timers, the clock in ms, promises in flight, observable effects\<close>
  timers :: "timer list"
  next_handle :: nat
  now :: nat
  pending :: "request list"
  next_req :: nat
  trace :: "effect list"

definition isEditing :: "editor \<Rightarrow> bool" where
  "isEditing s = truthy (route_id s)"

subsection \<open>Browser primitives\<close>

definition clearTimeout :: "nat \<Rightarrow> editor \<Rightarrow> editor" where
  "clearTimeout h s = s\<lparr>timers := filter (\<lambda>t. t_handle t \<noteq> h) (timers s)\<rparr>"

definition setTimeout :: "closure \<Rightarrow> nat \<Rightarrow> editor \<Rightarrow> editor" where
  \<comment> \<open>the handle returned is \<open>next_handle s\<close>\<close>
  "setTimeout c delay s =
     s\<lparr>timers := timers s @ [\<lparr>t_handle = next_handle s, t_due = now s + delay, t_callback = c\<rparr>],
       next_handle := Suc (next_handle s)\<rparr>"

definition call_api :: "origin \<Rightarrow> api_call \<Rightarrow> editor \<Rightarrow> editor" where
  "call_api from c s =
     s\<lparr>pending := pending s @ [\<lparr>req_id = next_req s, req_origin = from, req_call = c\<rparr>],
       next_req := Suc (next_req s),
       trace := trace s @ [Called c]\<rparr>"

subsection \<open>The debounce effect (lines 91-110)\<close>

definition run_cleanup :: "editor \<Rightarrow> editor" where
  "run_cleanup s =
     (if cleanup s then
        (case autoSaveTimerRef s of Some h \<Rightarrow> clearTimeout h s | None \<Rightarrow> s)
      else s)"

definition debounce_delay :: nat where
  "debounce_delay = 3000"

definition autoSaveEffect :: "editor \<Rightarrow> editor" where
  "autoSaveEffect s0 =
     (let s = run_cleanup s0 in
      if title s = [] \<and> content s = [] then s\<lparr>cleanup := False\<rparr>
      else if saving s then s\<lparr>cleanup := False\<rparr>
      else
        let s1 = (case autoSaveTimerRef s of Some h \<Rightarrow> clearTimeout h s | None \<Rightarrow> s);
            s2 = s1\<lparr>autoSaveStatus := Unsaved\<rparr>;
            cb = \<lparr>c_title = title s, c_content = content s, c_saving = saving s,
                  c_autoSaveStatus = autoSaveStatus s\<rparr>;
            s3 = setTimeout cb debounce_delay s2
        in s3\<lparr>autoSaveTimerRef := Some (next_handle s2), cleanup := True\<rparr>)"

definition rerender :: "editor \<Rightarrow> editor \<Rightarrow> editor" where
  \<comment> \<open>the effect has the dependencies \<open>[title, content]\<close> and runs only while mounted\<close>
  "rerender old new =
     (if mounted new \<and> (title new \<noteq> title old \<or> content new \<noteq> content old)
      then autoSaveEffect new else new)"

definition unmount :: "editor \<Rightarrow> editor" where
  "unmount s = (run_cleanup s)\<lparr>cleanup := False, mounted := False\<rparr>"

definition navigate :: "string \<Rightarrow> editor \<Rightarrow> editor" where
  \<comment> \<open>both routes of the editor leave it when the location becomes \<open>/dashboard\<close>\<close>
  "navigate path s = unmount (s\<lparr>trace := trace s @ [Navigated path]\<rparr>)"

subsection \<open>fetchNote (lines 22-45)\<close>

definition fetchNote :: "string \<Rightarrow> editor \<Rightarrow> editor" where
  "fetchNote noteId s =
     call_api FromFetchNote (GetSingleNote noteId) (s\<lparr>loading := True, error := None\<rparr>)"

definition fetchNote_settled :: "outcome \<Rightarrow> editor \<Rightarrow> editor" where
  "fetchNote_settled out s =
     (let s1 = (case out of
                  Fulfilled None \<Rightarrow> s
                | Fulfilled (Some noteData) \<Rightarrow>
                    s\<lparr>note_loaded := Some noteData,
                      title := (case note_title noteData of None \<Rightarrow> [] | Some t \<Rightarrow> t),
                      content := note_content noteData\<rparr>
                | Rejected msg \<Rightarrow> s\<lparr>error := Some (or_default msg ''Failed to fetch note'')\<rparr>)
      in rerender s (s1\<lparr>loading := False\<rparr>))"

subsection \<open>handleAutoSave (lines 47-88)\<close>

definition handleAutoSave :: "closure \<Rightarrow> editor \<Rightarrow> editor" where
  "handleAutoSave c s =
     (if trim (c_content c) = [] then s
      else if c_saving c \<or> c_autoSaveStatus c = Saving then s
      else
        let s1 = s\<lparr>autoSaveStatus := Saving, saving := True\<rparr> in
        (case js_or (createdNoteIdRef s1) (route_id s1) of
           Some noteId \<Rightarrow>
             if noteId \<noteq> [] then
               call_api FromHandleAutoSave
                 (EditNote noteId (or_undefined (trim (c_title c))) (trim (c_content c))) s1
             else
               call_api FromHandleAutoSave
                 (CreateNote (or_undefined (trim (c_title c))) (trim (c_content c))) s1
         | None \<Rightarrow>
             call_api FromHandleAutoSave
               (CreateNote (or_undefined (trim (c_title c))) (trim (c_content c))) s1))"

definition handleAutoSave_settled :: "api_call \<Rightarrow> outcome \<Rightarrow> editor \<Rightarrow> editor" where
  "handleAutoSave_settled c out s =
     (case out of
        Fulfilled response \<Rightarrow>
          (let s1 = (case c of
                       CreateNote _ _ \<Rightarrow>
                         (case response of
                            Some d \<Rightarrow>
                              if note_id d \<noteq> [] then
                                s\<lparr>createdNoteIdRef := Some (note_id d),
                                  trace := trace s @ [ReplacedState (''/dashboard/edit-note/'' @ note_id d)]\<rparr>
                              else s
                          | None \<Rightarrow> s)
                     | _ \<Rightarrow> s)
           in s1\<lparr>autoSaveStatus := Saved, saving := False\<rparr>)
      | Rejected msg \<Rightarrow> s\<lparr>autoSaveStatus := Unsaved, saving := False\<rparr>)"

subsection \<open>handleSave (lines 112-157)\<close>

definition handleSave :: "editor \<Rightarrow> editor" where
  "handleSave s =
     (if trim (content s) = [] then s\<lparr>error := Some ''Note content is required''\<rparr>
      else
        let s1 = (case autoSaveTimerRef s of
                    Some h \<Rightarrow> (clearTimeout h s)\<lparr>autoSaveTimerRef := None\<rparr>
                  | None \<Rightarrow> s);
            s2 = s1\<lparr>saving := True, autoSaveStatus := Saving, error := None\<rparr>
        in
        (case js_or (createdNoteIdRef s2) (route_id s2) of
           Some noteId \<Rightarrow>
             if noteId \<noteq> [] then
               call_api FromHandleSave
                 (EditNote noteId (or_undefined (trim (title s))) (trim (content s))) s2
             else
               call_api FromHandleSave
                 (CreateNote (or_undefined (trim (title s))) (trim (content s))) s2
         | None \<Rightarrow>
             call_api FromHandleSave
               (CreateNote (or_undefined (trim (title s))) (trim (content s))) s2))"

definition handleSave_settled :: "outcome \<Rightarrow> editor \<Rightarrow> editor" where
  "handleSave_settled out s =
     (let s1 = (case out of
                  Fulfilled _ \<Rightarrow> navigate ''/dashboard'' s
                | Rejected msg \<Rightarrow> s\<lparr>error := Some (or_default msg ''Failed to save note'')\<rparr>)
      in s1\<lparr>saving := False, autoSaveStatus := Saved\<rparr>)"

subsection \<open>handleDelete (lines 159-174)\<close>

definition confirm_prompt :: string where
  "confirm_prompt = ''Are you sure you want to delete this note?''"

definition handleDelete :: "bool \<Rightarrow> editor \<Rightarrow> editor" where
  \<comment> \<open>\<open>answer\<close> is what \<open>window.confirm\<close> returns if it is asked\<close>
  "handleDelete answer s =
     (case route_id s of
        None \<Rightarrow> s
      | Some i \<Rightarrow>
          if \<not> isEditing s \<or> i = [] then s
          else
            let s1 = s\<lparr>trace := trace s @ [Confirmed confirm_prompt answer]\<rparr> in
            if answer then call_api FromHandleDelete (DeleteNote i) (s1\<lparr>loading := True\<rparr>)
            else s1)"

definition handleDelete_settled :: "outcome \<Rightarrow> editor \<Rightarrow> editor" where
  "handleDelete_settled out s =
     (let s1 = (case out of
                  Fulfilled _ \<Rightarrow> navigate ''/dashboard'' s
                | Rejected msg \<Rightarrow> s\<lparr>error := Some (or_default msg ''Failed to delete note'')\<rparr>)
      in s1\<lparr>loading := False\<rparr>)"

subsection \<open>What is rendered (lines 210-320)\<close>

definition saveDisabled :: "editor \<Rightarrow> bool" where
  "saveDisabled s = (saving s \<or> trim (content s) = [])"

definition deleteRendered :: "editor \<Rightarrow> bool" where
  \<comment> \<open>the footer is inside the branch shown when not loading\<close>
  "deleteRendered s = (\<not> loading s \<and> isEditing s \<and> note_loaded s \<noteq> None \<and> isEditing s)"

definition getAutoSaveText :: "editor \<Rightarrow> string" where
  "getAutoSaveText s =
     (case autoSaveStatus s of
        Saving \<Rightarrow> ''Auto-saving...''
      | Saved \<Rightarrow> ''All changes saved''
      | Unsaved \<Rightarrow> ''Unsaved changes'')"

subsection \<open>Mounting and running the component\<close>

definition init :: "string option \<Rightarrow> editor" where
  "init rid =
     \<lparr>route_id = rid, note_loaded = None, title = [], content = [], loading = False,
      saving = False, error = None, autoSaveStatus = Saved, autoSaveTimerRef = None,
      createdNoteIdRef = None, cleanup = False, mounted = True,
      timers = [], next_handle = 1, now = 0, pending = [], next_req = 0, trace = []\<rparr>"

definition mount :: "string option \<Rightarrow> editor" where
  \<comment> \<open>the two effects of the first render, in the order of the source\<close>
  "mount rid =
     (let s = init rid;
          s1 = (case route_id s of
                  Some i \<Rightarrow> if isEditing s \<and> i \<noteq> [] then fetchNote i s else s
                | None \<Rightarrow> s)
      in autoSaveEffect s1)"

datatype input =
    SetTitle string
  | SetContent string
  | ClickSave
  | ClickCancel
  | ClickDelete bool
  | Elapse nat
  | TimerFires nat
  | Settles nat outcome

definition settle :: "request \<Rightarrow> outcome \<Rightarrow> editor \<Rightarrow> editor" where
  "settle r out s =
     (case req_origin r of
        FromFetchNote \<Rightarrow> fetchNote_settled out s
      | FromHandleAutoSave \<Rightarrow> handleAutoSave_settled (req_call r) out s
      | FromHandleSave \<Rightarrow> handleSave_settled out s
      | FromHandleDelete \<Rightarrow> handleDelete_settled out s)"

text \<open>
  A user event is delivered only when its control is rendered and enabled: the title
  input and the editor are shown when not loading, the save button is disabled by
  \<open>saveDisabled\<close>, the delete button is shown by \<open>deleteRendered\<close>. A timer runs its
  callback no earlier than its due time; a promise settles once.
\<close>

fun step :: "input \<Rightarrow> editor \<Rightarrow> editor" where
  "step (SetTitle v) s =
     (if mounted s \<and> \<not> loading s then rerender s (s\<lparr>title := v\<rparr>) else s)"
| "step (SetContent v) s =
     (if mounted s \<and> \<not> loading s then rerender s (s\<lparr>content := v\<rparr>) else s)"
| "step ClickSave s =
     (if mounted s \<and> \<not> saveDisabled s then handleSave s else s)"
| "step ClickCancel s =
     (if mounted s then navigate ''/dashboard'' s else s)"
| "step (ClickDelete answer) s =
     (if mounted s \<and> deleteRendered s then handleDelete answer s else s)"
| "step (Elapse d) s = s\<lparr>now := now s + d\<rparr>"
| "step (TimerFires h) s =
     (case find (\<lambda>t. t_handle t = h) (timers s) of
        None \<Rightarrow> s
      | Some t \<Rightarrow>
          if t_due t \<le> now s
          then handleAutoSave (t_callback t)
                 (s\<lparr>timers := filter (\<lambda>u. t_handle u \<noteq> h) (timers s)\<rparr>)
          else s)"
| "step (Settles r out) s =
     (case find (\<lambda>p. req_id p = r) (pending s) of
        None \<Rightarrow> s
      | Some p \<Rightarrow>
          settle p out
            (s\<lparr>pending := filter (\<lambda>q. req_id q \<noteq> r) (pending s),
               trace := trace s @ [Returned (req_call p) out]\<rparr>))"

definition run :: "input list \<Rightarrow> editor \<Rightarrow> editor" where
  "run ins s = foldl (\<lambda>s i. step i s) s ins"

section \<open>Properties of runs\<close>

subsection \<open>Persistence calls in flight and the coordinator's invariant\<close>

fun is_save :: "api_call \<Rightarrow> bool" where
  "is_save (CreateNote _ _) = True"
| "is_save (EditNote _ _ _) = True"
| "is_save _ = False"

definition saves_in_flight :: "editor \<Rightarrow> request list" where
  "saves_in_flight s = filter (\<lambda>p. is_save (req_call p)) (pending s)"

text \<open>
  The invariant of the coordinator. At most one timer is pending; it is the one whose
  handle \<open>autoSaveTimerRef\<close> holds, it was armed while mounted and not saving, and its
  callback closes over the current draft, which is not fully empty. The status is
  \<open>Saving\<close> exactly while \<open>saving\<close> is set, and \<open>saving\<close> is set exactly while one
  create or edit request is in flight. Request ids are distinct, and the create and edit
  requests are those of the two save handlers. \<open>settling\<close> is the same between the
  removal of a settled create or edit request and the rest of its handler.
\<close>

definition timer_ok :: "editor \<Rightarrow> timer \<Rightarrow> bool" where
  "timer_ok s t =
     (autoSaveTimerRef s = Some (t_handle t) \<and> cleanup s \<and> mounted s \<and> \<not> saving s \<and>
      c_title (t_callback t) = title s \<and> c_content (t_callback t) = content s \<and>
      \<not> c_saving (t_callback t) \<and> c_autoSaveStatus (t_callback t) \<noteq> Saving \<and>
      \<not> (title s = [] \<and> content s = []))"

definition coordinated :: "editor \<Rightarrow> bool" where
  "coordinated s =
     ((timers s = [] \<or> (\<exists>t. timers s = [t] \<and> timer_ok s t)) \<and>
      (autoSaveStatus s = Saving) = saving s \<and>
      (if saving s then (\<exists>p. saves_in_flight s = [p]) else saves_in_flight s = []) \<and>
      distinct (map req_id (pending s)) \<and>
      (\<forall>p \<in> set (pending s). req_id p < next_req s \<and>
         is_save (req_call p) = (req_origin p = FromHandleAutoSave \<or> req_origin p = FromHandleSave)))"

definition settling :: "editor \<Rightarrow> bool" where
  "settling s =
     ((timers s = [] \<or> (\<exists>t. timers s = [t] \<and> timer_ok s t)) \<and>
      (autoSaveStatus s = Saving) = saving s \<and>
      saving s \<and> saves_in_flight s = [] \<and>
      distinct (map req_id (pending s)) \<and>
      (\<forall>p \<in> set (pending s). req_id p < next_req s \<and>
         is_save (req_call p) = (req_origin p = FromHandleAutoSave \<or> req_origin p = FromHandleSave)))"

subsection \<open>Create and edit calls of a trace, and the call a draft stands for\<close>

fun is_save_call :: "effect \<Rightarrow> bool" where
  "is_save_call (Called c) = is_save c"
| "is_save_call _ = False"

definition save_calls :: "effect list \<Rightarrow> effect list" where
  "save_calls tr = filter is_save_call tr"

definition draft_call :: "editor \<Rightarrow> api_call" where
  \<comment> \<open>the create or edit call whose payload is the trimmed draft of the state\<close>
  "draft_call s =
     (if truthy (js_or (createdNoteIdRef s) (route_id s))
      then EditNote (case js_or (createdNoteIdRef s) (route_id s) of Some i \<Rightarrow> i | None \<Rightarrow> [])
             (or_undefined (trim (title s))) (trim (content s))
      else CreateNote (or_undefined (trim (title s))) (trim (content s)))"

definition manual_save_in_flight :: "editor \<Rightarrow> bool" where
  \<comment> \<open>a create or edit call issued by \<open>handleSave\<close> has not settled yet\<close>
  "manual_save_in_flight s = list_ex (\<lambda>p. req_origin p = FromHandleSave) (pending s)"

definition is_mutation :: "input \<Rightarrow> editor \<Rightarrow> bool" where
  \<comment> \<open>an input that changes the title or the content\<close>
  "is_mutation m s =
     (case m of SetTitle v \<Rightarrow> v \<noteq> title s | SetContent v \<Rightarrow> v \<noteq> content s | _ \<Rightarrow> False)"

subsection \<open>Create once, then edit\<close>

text \<open>
  \<open>promoted\<close> reads a trace from its start as the spec words the promotion: before a
  create is fulfilled every attempt must be a create; once one is fulfilled, with the
  identity \<open>i\<close> in its response, every attempt must be an edit of \<open>i\<close> and no create
  may be called again. Anything else is a \<open>Violation\<close>. \<open>returns_identity\<close> says of a
  fulfilled create that its response carries a non-empty id, as the Notes Service does.
\<close>

datatype promotion = NoIdentity | Identity string | Violation

fun observe :: "promotion \<Rightarrow> effect \<Rightarrow> promotion" where
  "observe NoIdentity (Called (EditNote _ _ _)) = Violation"
| "observe NoIdentity (Returned (EditNote _ _ _) _) = Violation"
| "observe NoIdentity (Returned (CreateNote _ _) (Fulfilled (Some d))) = Identity (note_id d)"
| "observe (Identity i) (Called (CreateNote _ _)) = Violation"
| "observe (Identity i) (Returned (CreateNote _ _) _) = Violation"
| "observe (Identity i) (Called (EditNote j _ _)) = (if j = i then Identity i else Violation)"
| "observe p _ = p"

definition promoted :: "effect list \<Rightarrow> promotion" where
  "promoted tr = foldl observe NoIdentity tr"

fun returns_identity :: "effect \<Rightarrow> bool" where
  "returns_identity (Returned (CreateNote _ _) (Fulfilled response)) =
     (case response of Some d \<Rightarrow> note_id d \<noteq> [] | None \<Rightarrow> False)"
| "returns_identity _ = True"

fun is_created :: "effect \<Rightarrow> bool" where
  "is_created (Returned (CreateNote _ _) (Fulfilled _)) = True"
| "is_created _ = False"

fun is_edited :: "effect \<Rightarrow> bool" where
  "is_edited (Returned (EditNote _ _ _) (Fulfilled _)) = True"
| "is_edited _ = False"

fun is_create_call :: "effect \<Rightarrow> bool" where
  "is_create_call (Called (CreateNote _ _)) = True"
| "is_create_call _ = False"

fun is_rejected_create :: "effect \<Rightarrow> bool" where
  "is_rejected_create (Returned (CreateNote _ _) (Rejected _)) = True"
| "is_rejected_create _ = False"

definition create_calls :: "effect list \<Rightarrow> nat" where
  "create_calls tr = length (filter is_create_call tr)"

definition rejected_creates :: "effect list \<Rightarrow> nat" where
  "rejected_creates tr = length (filter is_rejected_create tr)"

definition successful_creates :: "effect list \<Rightarrow> nat" where
  "successful_creates tr = length (filter is_created tr)"

definition successful_edits :: "effect list \<Rightarrow> nat" where
  "successful_edits tr = length (filter is_edited tr)"

text \<open>
  The invariant behind the promotion, for a session without a route id, and the state
  between the removal of a settled create or edit request and its handler.
\<close>

definition promo_ok :: "editor \<Rightarrow> bool" where
  "promo_ok s =
     (case promoted (trace s) of
        NoIdentity \<Rightarrow>
          \<not> truthy (createdNoteIdRef s)
          \<and> (\<forall>p \<in> set (pending s). is_save (req_call p) \<longrightarrow> (\<exists>t c. req_call p = CreateNote t c))
          \<and> successful_creates (trace s) = 0 \<and> successful_edits (trace s) = 0
          \<and> create_calls (trace s)
              = rejected_creates (trace s) + length (filter (\<lambda>p. is_save (req_call p)) (pending s))
      | Identity i \<Rightarrow>
          (\<forall>p \<in> set (pending s). is_save (req_call p) \<longrightarrow> (\<exists>t c. req_call p = EditNote i t c))
          \<and> successful_creates (trace s) = 1
          \<and> create_calls (trace s) = rejected_creates (trace s) + 1
          \<and> ((createdNoteIdRef s = Some i \<and> i \<noteq> []) \<or> (\<not> mounted s \<and> timers s = [] \<and> \<not> saving s))
      | Violation \<Rightarrow> False)"

definition promo_mid :: "api_call \<Rightarrow> outcome \<Rightarrow> editor \<Rightarrow> bool" where
  "promo_mid c out s =
     (saving s \<and> timers s = [] \<and> (\<forall>p \<in> set (pending s). \<not> is_save (req_call p))
      \<and> (case promoted (trace s) of
            NoIdentity \<Rightarrow>
              \<not> truthy (createdNoteIdRef s) \<and> (\<exists>m. out = Rejected m)
              \<and> (\<exists>t x. c = CreateNote t x)
              \<and> successful_creates (trace s) = 0 \<and> successful_edits (trace s) = 0
              \<and> create_calls (trace s) = rejected_creates (trace s)
          | Identity i \<Rightarrow>
              successful_creates (trace s) = 1
              \<and> create_calls (trace s) = rejected_creates (trace s) + 1
              \<and> ((\<exists>t x. c = EditNote i t x) \<and> createdNoteIdRef s = Some i \<and> i \<noteq> []
                 \<or> (\<exists>t x d. c = CreateNote t x \<and> out = Fulfilled (Some d) \<and> i = note_id d \<and> i \<noteq> []))
          | Violation \<Rightarrow> False))"

subsection \<open>Payloads\<close>

text \<open>A create or edit call whose content is not blank after trimming.\<close>

fun nonblank_payload :: "effect \<Rightarrow> bool" where
  "nonblank_payload (Called (CreateNote _ c)) = (trim c \<noteq> [])"
| "nonblank_payload (Called (EditNote _ _ c)) = (trim c \<noteq> [])"
| "nonblank_payload _ = True"

subsection \<open>Deleting\<close>

text \<open>
  \<open>confirm_gated\<close>: every call of \<open>deleteNote\<close> in a trace directly follows a
  \<open>window.confirm\<close> that returned true. \<open>deletes_only rid\<close>: a call of
  \<open>deleteNote\<close> has the route parameter as its target.
\<close>

fun is_delete :: "effect \<Rightarrow> bool" where
  "is_delete (Called (DeleteNote _)) = True"
| "is_delete _ = False"

fun confirmed_yes :: "effect option \<Rightarrow> bool" where
  "confirmed_yes (Some (Confirmed _ answer)) = answer"
| "confirmed_yes _ = False"

primrec gated_after :: "effect option \<Rightarrow> effect list \<Rightarrow> bool" where
  "gated_after prev [] = True"
| "gated_after prev (e # tr) = ((is_delete e \<longrightarrow> confirmed_yes prev) \<and> gated_after (Some e) tr)"

definition confirm_gated :: "effect list \<Rightarrow> bool" where
  "confirm_gated tr = gated_after None tr"

fun deletes_only :: "string option \<Rightarrow> effect \<Rightarrow> bool" where
  "deletes_only rid (Called (DeleteNote i)) = (rid = Some i \<and> i \<noteq> [])"
| "deletes_only rid _ = True"

subsection \<open>Notes used in examples\<close>

definition abc_note :: Note where
  "abc_note = \<lparr>note_id = ''abc'', note_title = Some ''T'', note_content = ''Hello''\<rparr>"

definition n1_note :: Note where
  "n1_note = \<lparr>note_id = ''n1'', note_title = None, note_content = ''Hello''\<rparr>"

definition example_session :: "input list" where
  \<comment> \<open>a manual save that fails, a debounced save that creates, a manual save that edits\<close>
  "example_session =
     [SetContent ''Hello'', ClickSave, Settles 0 (Rejected ''offline''),
      SetContent ''Hello!'', Elapse 3000, TimerFires 2, Settles 1 (Fulfilled (Some n1_note)),
      ClickSave, Settles 2 (Fulfilled (Some n1_note))]"

section \<open>Proofs\<close>

subsection \<open>Auxiliary facts\<close>

lemmas prim_defs = clearTimeout_def setTimeout_def call_api_def run_cleanup_def autoSaveEffect_def
  rerender_def unmount_def navigate_def

lemmas handler_defs = handleSave_def handleAutoSave_def handleDelete_def fetchNote_def
  fetchNote_settled_def handleAutoSave_settled_def handleSave_settled_def handleDelete_settled_def
  settle_def

lemma trace_autoSaveEffect [simp]: "trace (autoSaveEffect s) = trace s"
  by (simp add: prim_defs Let_def split: option.splits)

lemma trace_rerender [simp]: "trace (rerender old new) = trace new"
  by (simp add: rerender_def)

lemma trace_navigate [simp]: "trace (navigate p s) = trace s @ [Navigated p]"
  by (simp add: navigate_def unmount_def run_cleanup_def clearTimeout_def split: option.splits)

lemma trace_call_api [simp]: "trace (call_api from c s) = trace s @ [Called c]"
  by (simp add: call_api_def)

lemmas eval_defs = run_def mount_def init_def handler_defs prim_defs Let_def trim_def is_space_def
  js_or_def truthy_def or_undefined_def or_default_def saveDisabled_def deleteRendered_def
  isEditing_def debounce_delay_def getAutoSaveText_def saves_in_flight_def save_calls_def
  draft_call_def is_mutation_def n1_note_def abc_note_def

lemma dropWhile_hd_id: "xs \<noteq> [] \<Longrightarrow> \<not> P (hd xs) \<Longrightarrow> dropWhile P xs = xs"
  by (cases xs) simp_all

lemma trim_trim: "trim (trim x) = trim x"
proof -
  define ys where "ys = dropWhile is_space x"
  define zs where "zs = rev (dropWhile is_space (rev ys))"
  have split: "ys = zs @ rev (takeWhile is_space (rev ys))"
  proof -
    have "rev (takeWhile is_space (rev ys) @ dropWhile is_space (rev ys)) = ys"
      by (simp only: takeWhile_dropWhile_id rev_rev_ident)
    then have "rev (dropWhile is_space (rev ys)) @ rev (takeWhile is_space (rev ys)) = ys"
      by (simp only: rev_append)
    then show ?thesis by (simp only: zs_def)
  qed
  have front: "dropWhile is_space zs = zs"
  proof (cases "zs = []")
    case True
    then show ?thesis by simp
  next
    case False
    then have "ys \<noteq> []" using split by auto
    then have "\<not> is_space (hd ys)" unfolding ys_def by (rule hd_dropWhile)
    moreover have "hd ys = hd zs" using split False by (metis hd_append2)
    ultimately show ?thesis using False by (simp add: dropWhile_hd_id)
  qed
  have rear: "dropWhile is_space (rev zs) = rev zs"
    by (simp add: zs_def)
  have "trim x = zs" by (simp add: trim_def ys_def zs_def)
  moreover have "trim zs = zs" by (simp add: trim_def front rear)
  ultimately show ?thesis by simp
qed

lemma find_SomeD: "find P xs = Some x \<Longrightarrow> x \<in> set xs \<and> P x"
  by (induction xs) (auto split: if_splits)

lemma run_Nil: "run [] s = s"
  by (simp add: run_def)

lemma run_snoc: "run (ins @ [i]) s = step i (run ins s)"
  by (simp add: run_def)

subsection \<open>The invariant holds in every reachable state\<close>

lemma coordinated_init: "coordinated (mount rid)"
  by (auto simp: coordinated_def mount_def init_def fetchNote_def prim_defs saves_in_flight_def isEditing_def truthy_def Let_def split: option.splits)

lemma coordinated_effect:
  assumes "coordinated s" "mounted s"
  shows "coordinated (autoSaveEffect (s\<lparr>note_loaded := n, title := a, content := b, loading := l\<rparr>))"
  using assms
  by (auto simp: coordinated_def timer_ok_def prim_defs saves_in_flight_def Let_def
      debounce_delay_def split: option.splits)

lemma coordinated_unmounted:
  assumes "coordinated s" "\<not> mounted s"
  shows "coordinated (s\<lparr>note_loaded := n, title := a, content := b, loading := l\<rparr>)"
  using assms by (auto simp: coordinated_def timer_ok_def saves_in_flight_def)

lemma coordinated_unchanged:
  assumes "coordinated s"
  shows "coordinated (s\<lparr>note_loaded := n, error := e, loading := l\<rparr>)"
  using assms by (auto simp: coordinated_def timer_ok_def saves_in_flight_def)

lemma coordinated_rerender:
  assumes "coordinated s"
  shows "coordinated (rerender s (s\<lparr>note_loaded := n, title := a, content := b, loading := l\<rparr>))"
proof (cases "mounted s")
  case True
  show ?thesis
  proof (cases "a = title s \<and> b = content s")
    case True
    then have "s\<lparr>note_loaded := n, title := a, content := b, loading := l\<rparr>
        = s\<lparr>note_loaded := n, error := error s, loading := l\<rparr>" by simp
    then show ?thesis using assms True coordinated_unchanged [OF assms, where n = n and l = l and e = "error s"]
      by (simp add: rerender_def)
  next
    case False
    then show ?thesis using assms \<open>mounted s\<close>
      by (simp add: rerender_def coordinated_effect)
  qed
next
  case False
  then show ?thesis using assms by (simp add: rerender_def coordinated_unmounted)
qed

lemma coordinated_SetTitle: "coordinated s \<Longrightarrow> coordinated (step (SetTitle v) s)"
  using coordinated_rerender [where s = s and n = "note_loaded s" and a = v and b = "content s"
      and l = "loading s"] by simp

lemma coordinated_SetContent: "coordinated s \<Longrightarrow> coordinated (step (SetContent v) s)"
  using coordinated_rerender [where s = s and n = "note_loaded s" and a = "title s" and b = v
      and l = "loading s"] by simp

lemma coordinated_ClickSave: "coordinated s \<Longrightarrow> coordinated (step ClickSave s)"
  by (auto simp: coordinated_def timer_ok_def prim_defs saves_in_flight_def Let_def handleSave_def saveDisabled_def split: option.splits)

lemma coordinated_ClickCancel: "coordinated s \<Longrightarrow> coordinated (step ClickCancel s)"
  by (auto simp: coordinated_def timer_ok_def prim_defs saves_in_flight_def Let_def split: option.splits)

lemma coordinated_ClickDelete: "coordinated s \<Longrightarrow> coordinated (step (ClickDelete a) s)"
  by (auto simp: coordinated_def timer_ok_def prim_defs saves_in_flight_def Let_def handleDelete_def split: option.splits)

lemma coordinated_Elapse: "coordinated s \<Longrightarrow> coordinated (step (Elapse d) s)"
  by (auto simp: coordinated_def timer_ok_def saves_in_flight_def)

lemma coordinated_TimerFires: "coordinated s \<Longrightarrow> coordinated (step (TimerFires h) s)"
  by (auto simp: coordinated_def timer_ok_def prim_defs saves_in_flight_def Let_def handleAutoSave_def split: option.splits if_splits)

lemma filter_settled_other:
  assumes "distinct (map req_id ps)" "p \<in> set ps" "\<not> Q p"
  shows "filter (\<lambda>q. req_id q \<noteq> req_id p \<and> Q q) ps = filter Q ps"
proof -
  have "\<forall>q\<in>set ps. req_id q = req_id p \<longrightarrow> q = p"
    using assms(1,2) by (meson distinct_map inj_onD)
  then have "\<forall>q\<in>set ps. Q q \<longrightarrow> req_id q \<noteq> req_id p"
    using assms(3) by blast
  then show ?thesis
    by (intro filter_cong) auto
qed

lemma filter_settled_single:
  assumes "filter Q ps = [q]" "Q p" "p \<in> set ps"
  shows "filter (\<lambda>q. req_id q \<noteq> req_id p \<and> Q q) ps = []"
proof -
  have "p \<in> set (filter Q ps)" using assms(2,3) by simp
  then have "p \<in> set [q]" by (simp only: assms(1))
  then have "p = q" by simp
  have "filter (\<lambda>q. req_id q \<noteq> req_id p) (filter Q ps) = []"
    unfolding assms(1) using \<open>p = q\<close> by simp
  then show ?thesis by (simp add: conj_commute)
qed

lemma coordinated_fetchNote_settled:
  assumes c: "coordinated s"
  shows "coordinated (fetchNote_settled out s)"
proof (cases out)
  case (Fulfilled r)
  show ?thesis
  proof (cases r)
    case None
    then show ?thesis using Fulfilled coordinated_unchanged [OF c, where n = "note_loaded s" and l = False and e = "error s"]
      by (simp add: fetchNote_settled_def rerender_def)
  next
    case (Some d)
    then show ?thesis using Fulfilled
        coordinated_rerender [OF c, where n = "Some d"
          and a = "case note_title d of None \<Rightarrow> [] | Some t \<Rightarrow> t"
          and b = "note_content d" and l = False]
      by (simp add: fetchNote_settled_def)
  qed
next
  case (Rejected m)
  then show ?thesis
    using coordinated_unchanged [OF c, where n = "note_loaded s" and l = False
        and e = "Some (or_default m ''Failed to fetch note'')"]
    by (simp add: fetchNote_settled_def rerender_def)
qed

lemma coordinated_handleDelete_settled: "coordinated s \<Longrightarrow> coordinated (handleDelete_settled out s)"
  by (auto simp: coordinated_def timer_ok_def prim_defs saves_in_flight_def Let_def
      handleDelete_settled_def split: option.splits outcome.splits)

lemma coordinated_handleSave_settled: "settling s \<Longrightarrow> coordinated (handleSave_settled out s)"
  by (auto simp: coordinated_def settling_def timer_ok_def prim_defs saves_in_flight_def Let_def
      handleSave_settled_def split: option.splits outcome.splits)

lemma coordinated_handleAutoSave_settled: "settling s \<Longrightarrow> coordinated (handleAutoSave_settled c out s)"
  by (auto simp: coordinated_def settling_def timer_ok_def prim_defs saves_in_flight_def Let_def
      handleAutoSave_settled_def split: option.splits outcome.splits api_call.splits)

lemma coordinated_removed_other:
  assumes "coordinated s" "p \<in> set (pending s)" "\<not> is_save (req_call p)"
  shows "coordinated (s\<lparr>pending := filter (\<lambda>q. req_id q \<noteq> req_id p) (pending s), trace := tr\<rparr>)"
proof -
  have d: "distinct (map req_id (pending s))" using assms(1) by (simp add: coordinated_def)
  have "filter (\<lambda>q. req_id q \<noteq> req_id p \<and> is_save (req_call q)) (pending s)
        = filter (\<lambda>p. is_save (req_call p)) (pending s)"
    using d assms(2,3) by (rule filter_settled_other)
  then show ?thesis using assms(1)
    by (auto simp: coordinated_def timer_ok_def saves_in_flight_def distinct_map_filter)
qed

lemma coordinated_removed_save:
  assumes "coordinated s" "p \<in> set (pending s)" "is_save (req_call p)"
  shows "settling (s\<lparr>pending := filter (\<lambda>q. req_id q \<noteq> req_id p) (pending s), trace := tr\<rparr>)"
proof -
  have "saves_in_flight s \<noteq> []" using assms(2,3)
    by (auto simp: saves_in_flight_def filter_empty_conv)
  then have sv: "saving s" using assms(1) by (auto simp: coordinated_def split: if_splits)
  then obtain q where q: "filter (\<lambda>p. is_save (req_call p)) (pending s) = [q]"
    using assms(1) by (auto simp: coordinated_def saves_in_flight_def)
  have "filter (\<lambda>q. req_id q \<noteq> req_id p \<and> is_save (req_call q)) (pending s) = []"
    using q assms(3) assms(2) by (rule filter_settled_single)
  then show ?thesis using assms(1) sv
    by (auto simp: coordinated_def settling_def timer_ok_def saves_in_flight_def distinct_map_filter)
qed

lemma coordinated_Settles:
  assumes "coordinated s"
  shows "coordinated (step (Settles r out) s)"
proof (cases "find (\<lambda>p. req_id p = r) (pending s)")
  case None
  then show ?thesis using assms by simp
next
  case (Some p)
  then have pin: "p \<in> set (pending s)" and r: "r = req_id p" by (auto dest: find_SomeD)
  then have kind: "is_save (req_call p) = (req_origin p = FromHandleAutoSave \<or> req_origin p = FromHandleSave)"
    using assms by (simp add: coordinated_def)
  let ?s1 = "s\<lparr>pending := filter (\<lambda>q. req_id q \<noteq> req_id p) (pending s), trace := trace s @ [Returned (req_call p) out]\<rparr>"
  have eq: "step (Settles r out) s = settle p out ?s1" using Some r by simp
  show ?thesis
  proof (cases "req_origin p")
    case FromFetchNote
    then have "coordinated ?s1" using assms pin kind by (intro coordinated_removed_other) auto
    then show ?thesis unfolding eq using FromFetchNote by (simp add: settle_def coordinated_fetchNote_settled)
  next
    case FromHandleAutoSave
    then have "settling ?s1" using assms pin kind by (intro coordinated_removed_save) auto
    then show ?thesis unfolding eq using FromHandleAutoSave
      by (simp add: settle_def coordinated_handleAutoSave_settled)
  next
    case FromHandleSave
    then have "settling ?s1" using assms pin kind by (intro coordinated_removed_save) auto
    then show ?thesis unfolding eq using FromHandleSave
      by (simp add: settle_def coordinated_handleSave_settled)
  next
    case FromHandleDelete
    then have "coordinated ?s1" using assms pin kind by (intro coordinated_removed_other) auto
    then show ?thesis unfolding eq using FromHandleDelete
      by (simp add: settle_def coordinated_handleDelete_settled)
  qed
qed

lemma coordinated_step: "coordinated s \<Longrightarrow> coordinated (step i s)"
  by (cases i) (simp_all only: coordinated_SetTitle coordinated_SetContent coordinated_ClickSave coordinated_ClickCancel
      coordinated_ClickDelete coordinated_Elapse coordinated_TimerFires coordinated_Settles)

lemma coordinated_run: "coordinated (run ins (mount rid))"
  by (induction ins rule: rev_induct) (simp_all add: run_snoc run_Nil coordinated_init coordinated_step)

subsection \<open>Blank content is never persisted\<close>

lemma nonblank_step:
  assumes "list_all nonblank_payload (trace s)"
  shows "list_all nonblank_payload (trace (step i s))"
proof (cases i)
  case (Settles r out)
  then show ?thesis using assms
    by (auto simp: handler_defs Let_def
      split: option.splits outcome.splits origin.splits api_call.splits)
qed (use assms in \<open>auto simp: handler_defs Let_def clearTimeout_def trim_trim split: option.splits\<close>)

lemma nonblank_run: "list_all nonblank_payload (trace (run ins (mount rid)))"
proof (induction ins rule: rev_induct)
  case Nil
  show ?case
    by (simp add: run_Nil mount_def init_def fetchNote_def Let_def split: option.splits)
next
  case (snoc i ins)
  then show ?case by (simp add: run_snoc nonblank_step)
qed

text \<open>
  C5. No \<open>createNote\<close> or \<open>editNote\<close> call is ever made with content that is empty
  after trimming: in every run, each such call carries non-blank content. A debounced
  attempt whose content is blank after trimming does nothing. A manual save whose content
  is blank after trimming sets the error ``Note content is required'' and changes nothing
  else: no timer is cancelled, the status stays, no call is made, nothing is navigated.
\<close>

theorem no_blank_content_is_persisted:
  "list_all nonblank_payload (trace (run ins (mount rid)))
   \<and> (trim (c_content c) = [] \<longrightarrow> handleAutoSave c s = s)
   \<and> (trim (content s) = [] \<longrightarrow>
        handleSave s = s\<lparr>error := Some ''Note content is required''\<rparr>)"
  by (simp add: nonblank_run handleAutoSave_def handleSave_def)

theorem no_blank_content_is_persisted_witness:
  "list_all nonblank_payload
     (trace (run [SetContent '' Hello '', ClickSave] (mount None)))
   \<and> trace (run [SetContent '' Hello '', ClickSave] (mount None)) = [Called (CreateNote None ''Hello'')]
   \<and> trim (c_content \<lparr>c_title = ''T'', c_content = ''  '', c_saving = False, c_autoSaveStatus = Saved\<rparr>) = []
   \<and> handleAutoSave \<lparr>c_title = ''T'', c_content = ''  '', c_saving = False, c_autoSaveStatus = Saved\<rparr>
         (run [SetTitle ''T'', SetContent ''  ''] (mount None))
       = run [SetTitle ''T'', SetContent ''  ''] (mount None)
   \<and> trim (content (run [SetTitle ''T'', SetContent ''  ''] (mount None))) = []
   \<and> handleSave (run [SetTitle ''T'', SetContent ''  ''] (mount None))
       = (run [SetTitle ''T'', SetContent ''  ''] (mount None))\<lparr>error := Some ''Note content is required''\<rparr>"
proof -
  let ?c = "\<lparr>c_title = ''T'', c_content = ''  '', c_saving = False, c_autoSaveStatus = Saved\<rparr>"
  let ?s = "run [SetTitle ''T'', SetContent ''  ''] (mount None)"
  have h1: "trim (c_content ?c) = []" by (simp add: eval_defs)
  have h2: "trim (content ?s) = []" by (simp add: eval_defs)
  have tr: "trace (run [SetContent '' Hello '', ClickSave] (mount None)) = [Called (CreateNote None ''Hello'')]"
    by (simp add: eval_defs)
  show ?thesis
    using no_blank_content_is_persisted [of "[SetContent '' Hello '', ClickSave]" None ?c ?s] h1 h2 tr
    by simp
qed

subsection \<open>Manual save: navigation and errors\<close>

text \<open>
  C6. When the call of a manual save is fulfilled, the component navigates to the dashboard
  and the session ends; when it is rejected, the error message is set, nothing is
  navigated and the session stays open.
\<close>

theorem manual_save_outcome:
  assumes "find (\<lambda>p. req_id p = r) (pending s) = Some p"
    and "req_origin p = FromHandleSave"
  shows "trace (step (Settles r (Fulfilled d)) s)
           = trace s @ [Returned (req_call p) (Fulfilled d), Navigated ''/dashboard'']
       \<and> \<not> mounted (step (Settles r (Fulfilled d)) s)
       \<and> trace (step (Settles r (Rejected msg)) s) = trace s @ [Returned (req_call p) (Rejected msg)]
       \<and> mounted (step (Settles r (Rejected msg)) s) = mounted s
       \<and> error (step (Settles r (Rejected msg)) s) = Some (or_default msg ''Failed to save note'')"
  using assms
  by (simp add: settle_def handleSave_settled_def prim_defs Let_def split: option.splits)

theorem manual_save_outcome_witness:
  "trace (run [SetContent ''Hello'', ClickSave, Settles 0 (Fulfilled (Some n1_note))] (mount None))
     = [Called (CreateNote None ''Hello''),
        Returned (CreateNote None ''Hello'') (Fulfilled (Some n1_note)),
        Navigated ''/dashboard'']
   \<and> \<not> mounted (run [SetContent ''Hello'', ClickSave, Settles 0 (Fulfilled (Some n1_note))] (mount None))
   \<and> trace (run [SetContent ''Hello'', ClickSave, Settles 0 (Rejected ''boom'')] (mount None))
     = [Called (CreateNote None ''Hello''), Returned (CreateNote None ''Hello'') (Rejected ''boom'')]
   \<and> mounted (run [SetContent ''Hello'', ClickSave, Settles 0 (Rejected ''boom'')] (mount None))
   \<and> error (run [SetContent ''Hello'', ClickSave, Settles 0 (Rejected ''boom'')] (mount None)) = Some ''boom''"
proof -
  let ?s = "run [SetContent ''Hello'', ClickSave] (mount None)"
  let ?p = "\<lparr>req_id = 0, req_origin = FromHandleSave, req_call = CreateNote None ''Hello''\<rparr>"
  have h1: "find (\<lambda>p. req_id p = 0) (pending ?s) = Some ?p" by (simp add: eval_defs)
  have h2: "req_origin ?p = FromHandleSave" by simp
  have tr: "trace ?s = [Called (CreateNote None ''Hello'')]" by (simp add: eval_defs)
  have m: "mounted ?s" by (simp add: eval_defs)
  have e: "or_default ''boom'' ''Failed to save note'' = ''boom''" by (simp add: eval_defs)
  show ?thesis
    using manual_save_outcome [OF h1 h2, of "Some n1_note" "''boom''"] tr m e
    by (simp add: run_def)
qed

subsection \<open>The guard is released\<close>

lemma find_distinct:
  "distinct (map f xs) \<Longrightarrow> p \<in> set xs \<Longrightarrow> find (\<lambda>q. f q = f p) xs = Some p"
  by (induction xs) (auto simp: image_iff)

lemma saving_settled:
  assumes "find (\<lambda>p. req_id p = r) (pending s) = Some p"
    and "req_origin p = FromHandleAutoSave \<or> req_origin p = FromHandleSave"
  shows "\<not> saving (step (Settles r out) s)"
  using assms
  by (auto simp: settle_def handleSave_settled_def handleAutoSave_settled_def prim_defs Let_def
      split: option.splits outcome.splits api_call.splits)

text \<open>
  C7. When a persistence attempt completes, fulfilled or rejected, \<open>saving\<close> is false
  afterwards. In every reachable state where \<open>saving\<close> is set, a create or edit call
  is in flight whose completion, with any outcome, clears it: the guard is never left set
  for good.
\<close>

theorem guard_is_released:
  "(find (\<lambda>p. req_id p = r) (pending s) = Some p
      \<and> (req_origin p = FromHandleAutoSave \<or> req_origin p = FromHandleSave)
      \<longrightarrow> \<not> saving (step (Settles r out) s))
   \<and> (saving (run ins (mount rid)) \<longrightarrow>
        (\<exists>q \<in> set (pending (run ins (mount rid))).
           is_save (req_call q)
           \<and> (\<forall>out. \<not> saving (step (Settles (req_id q) out) (run ins (mount rid))))))"
proof (intro conjI impI)
  assume "find (\<lambda>p. req_id p = r) (pending s) = Some p
      \<and> (req_origin p = FromHandleAutoSave \<or> req_origin p = FromHandleSave)"
  then show "\<not> saving (step (Settles r out) s)"
    using saving_settled [of r s p out] by blast
next
  let ?s = "run ins (mount rid)"
  assume sv: "saving ?s"
  have c: "coordinated ?s" by (rule coordinated_run)
  then obtain q where q: "saves_in_flight ?s = [q]" using sv by (auto simp: coordinated_def)
  then have "q \<in> set (saves_in_flight ?s)" by simp
  then have qin: "q \<in> set (pending ?s)" and qs: "is_save (req_call q)"
    by (simp_all add: saves_in_flight_def)
  have "distinct (map req_id (pending ?s))" using c by (simp add: coordinated_def)
  then have f: "find (\<lambda>p. req_id p = req_id q) (pending ?s) = Some q"
    using qin by (rule find_distinct)
  have o: "req_origin q = FromHandleAutoSave \<or> req_origin q = FromHandleSave"
    using c qin qs by (auto simp: coordinated_def)
  have "\<forall>out. \<not> saving (step (Settles (req_id q) out) ?s)"
  proof
    fix out
    show "\<not> saving (step (Settles (req_id q) out) ?s)"
      using f o by (rule saving_settled)
  qed
  then show "\<exists>q \<in> set (pending ?s). is_save (req_call q)
           \<and> (\<forall>out. \<not> saving (step (Settles (req_id q) out) ?s))"
    using qin qs by blast
qed

theorem guard_is_released_witness:
  "saving (run [SetContent ''Hello'', Elapse 3000, TimerFires 1] (mount None))
   \<and> \<not> saving (run [SetContent ''Hello'', Elapse 3000, TimerFires 1, Settles 0 (Rejected ''boom'')] (mount None))
   \<and> \<not> saving (run [SetContent ''Hello'', Elapse 3000, TimerFires 1, Settles 0 (Fulfilled None)] (mount None))
   \<and> (\<exists>q \<in> set (pending (run [SetContent ''Hello'', Elapse 3000, TimerFires 1] (mount None))).
           is_save (req_call q)
           \<and> (\<forall>out. \<not> saving (step (Settles (req_id q) out) (run [SetContent ''Hello'', Elapse 3000, TimerFires 1] (mount None)))))"
proof -
  let ?s = "run [SetContent ''Hello'', Elapse 3000, TimerFires 1] (mount None)"
  let ?p = "\<lparr>req_id = 0, req_origin = FromHandleAutoSave, req_call = CreateNote None ''Hello''\<rparr>"
  have h1: "find (\<lambda>p. req_id p = 0) (pending ?s) = Some ?p" by (simp add: eval_defs)
  have h2: "req_origin ?p = FromHandleAutoSave \<or> req_origin ?p = FromHandleSave" by simp
  have h3: "saving ?s" by (simp add: eval_defs)
  show ?thesis
    using guard_is_released [of 0 ?s ?p "Rejected ''boom''" "[SetContent ''Hello'', Elapse 3000, TimerFires 1]" None]
      guard_is_released [of 0 ?s ?p "Fulfilled None" "[SetContent ''Hello'', Elapse 3000, TimerFires 1]" None]
      h1 h2 h3
    by (simp add: run_def)
qed

subsection \<open>Delete asks first\<close>

lemma gated_after_append:
  "gated_after p (xs @ e # es) =
     (gated_after p xs \<and> (is_delete e \<longrightarrow> confirmed_yes (if xs = [] then p else Some (last xs)))
      \<and> gated_after (Some e) es)"
  by (induction xs arbitrary: p) auto

lemma confirm_gated_step:
  assumes "confirm_gated (trace s)"
  shows "confirm_gated (trace (step i s))"
proof (cases i)
  case (Settles r out)
  then show ?thesis using assms
    by (auto simp: handler_defs Let_def confirm_gated_def gated_after_append
      split: option.splits outcome.splits origin.splits api_call.splits)
qed (use assms in \<open>auto simp: handler_defs Let_def clearTimeout_def confirm_gated_def gated_after_append split: option.splits\<close>)

lemma confirm_gated_run: "confirm_gated (trace (run ins (mount rid)))"
proof (induction ins rule: rev_induct)
  case Nil
  show ?case
    by (simp add: run_Nil mount_def init_def fetchNote_def Let_def confirm_gated_def split: option.splits)
next
  case (snoc i ins)
  then show ?case by (simp add: run_snoc confirm_gated_step)
qed

text \<open>
  C9. In every run, each call of \<open>deleteNote\<close> directly follows a \<open>confirm\<close> that
  returned true, within the same delete action. When the confirmation returns false the
  delete action calls nothing and leaves the session open: no request is added, the component
  stays mounted, and the only effect, if any, is the dialog itself.
\<close>

theorem delete_requires_confirmation:
  "confirm_gated (trace (run ins (mount rid)))
   \<and> pending (handleDelete False s) = pending s
   \<and> mounted (handleDelete False s) = mounted s
   \<and> (trace (handleDelete False s) = trace s
       \<or> trace (handleDelete False s) = trace s @ [Confirmed confirm_prompt False])"
  by (simp add: confirm_gated_run handleDelete_def Let_def split: option.splits)

theorem delete_requires_confirmation_witness:
  "confirm_gated (trace (run [Settles 0 (Fulfilled (Some abc_note)), ClickDelete False, ClickDelete True] (mount (Some ''abc''))))
   \<and> trace (run [Settles 0 (Fulfilled (Some abc_note)), ClickDelete False, ClickDelete True] (mount (Some ''abc'')))
      = [Called (GetSingleNote ''abc''), Returned (GetSingleNote ''abc'') (Fulfilled (Some abc_note)),
         Confirmed confirm_prompt False, Confirmed confirm_prompt True, Called (DeleteNote ''abc'')]
   \<and> mounted (run [Settles 0 (Fulfilled (Some abc_note)), ClickDelete False] (mount (Some ''abc'')))"
proof -
  have tr: "trace (run [Settles 0 (Fulfilled (Some abc_note)), ClickDelete False, ClickDelete True] (mount (Some ''abc'')))
      = [Called (GetSingleNote ''abc''), Returned (GetSingleNote ''abc'') (Fulfilled (Some abc_note)),
         Confirmed confirm_prompt False, Confirmed confirm_prompt True, Called (DeleteNote ''abc'')]"
    by (simp add: eval_defs)
  have m: "mounted (run [Settles 0 (Fulfilled (Some abc_note)), ClickDelete False] (mount (Some ''abc'')))"
    by (simp add: eval_defs)
  show ?thesis
    using delete_requires_confirmation
      [of "[Settles 0 (Fulfilled (Some abc_note)), ClickDelete False, ClickDelete True]" "Some ''abc''"
          "run [Settles 0 (Fulfilled (Some abc_note))] (mount (Some ''abc''))"] tr m
    by simp
qed

subsection \<open>Delete targets the route parameter\<close>

lemma route_id_step [simp]: "route_id (step i s) = route_id s"
proof (cases i)
  case (Settles r out)
  then show ?thesis
    by (auto simp: handler_defs prim_defs Let_def
        split: option.splits outcome.splits origin.splits api_call.splits)
qed (auto simp: handler_defs prim_defs Let_def split: option.splits)

lemma route_id_run [simp]: "route_id (run ins (mount rid)) = rid"
proof (induction ins rule: rev_induct)
  case Nil
  show ?case
    by (simp add: run_Nil mount_def init_def fetchNote_def prim_defs Let_def split: option.splits)
next
  case (snoc i ins)
  then show ?case by (simp add: run_snoc)
qed

lemma deletes_only_step:
  assumes "list_all (deletes_only (route_id s)) (trace s)"
  shows "list_all (deletes_only (route_id s)) (trace (step i s))"
proof (cases i)
  case (Settles r out)
  then show ?thesis using assms
    by (auto simp: handler_defs Let_def
      split: option.splits outcome.splits origin.splits api_call.splits)
qed (use assms in \<open>auto simp: handler_defs Let_def clearTimeout_def split: option.splits\<close>)

lemma deletes_only_run: "list_all (deletes_only rid) (trace (run ins (mount rid)))"
proof (induction ins rule: rev_induct)
  case Nil
  show ?case
    by (simp add: run_Nil mount_def init_def fetchNote_def Let_def split: option.splits)
next
  case (snoc i ins)
  have "list_all (deletes_only (route_id (run ins (mount rid)))) (trace (step i (run ins (mount rid))))"
    using snoc by (intro deletes_only_step) simp
  then show ?case by (simp add: run_snoc)
qed

text \<open>
  C10. The delete action targets only the route parameter: when the session has no route
  id, \<open>handleDelete\<close> returns without any effect, whatever \<open>createdNoteIdRef\<close> holds;
  in every run each \<open>deleteNote\<close> call has the route id as its target; and the delete
  control is rendered only in a session opened on an existing note that was loaded.
\<close>

theorem delete_targets_route_id:
  "(\<not> truthy (route_id s) \<longrightarrow> handleDelete answer s = s)
   \<and> list_all (deletes_only rid) (trace (run ins (mount rid)))
   \<and> (deleteRendered (run ins (mount rid)) \<longrightarrow>
        truthy rid \<and> note_loaded (run ins (mount rid)) \<noteq> None)"
  by (auto simp: deletes_only_run handleDelete_def truthy_def deleteRendered_def isEditing_def
      split: option.splits)

theorem delete_targets_route_id_witness:
  "\<not> truthy (route_id (run [SetContent ''Hello'', Elapse 3000, TimerFires 1, Settles 0 (Fulfilled (Some n1_note))] (mount None)))
   \<and> createdNoteIdRef (run [SetContent ''Hello'', Elapse 3000, TimerFires 1, Settles 0 (Fulfilled (Some n1_note))] (mount None)) = Some ''n1''
   \<and> handleDelete True (run [SetContent ''Hello'', Elapse 3000, TimerFires 1, Settles 0 (Fulfilled (Some n1_note))] (mount None))
       = run [SetContent ''Hello'', Elapse 3000, TimerFires 1, Settles 0 (Fulfilled (Some n1_note))] (mount None)
   \<and> deleteRendered (run [Settles 0 (Fulfilled (Some abc_note))] (mount (Some ''abc'')))
   \<and> truthy (Some ''abc'')
   \<and> list_all (deletes_only (Some ''abc''))
        (trace (run [Settles 0 (Fulfilled (Some abc_note)), ClickDelete True] (mount (Some ''abc''))))"
proof -
  let ?s = "run [SetContent ''Hello'', Elapse 3000, TimerFires 1, Settles 0 (Fulfilled (Some n1_note))] (mount None)"
  have h1: "\<not> truthy (route_id ?s)" by (simp add: eval_defs)
  have c: "createdNoteIdRef ?s = Some ''n1''" by (simp add: eval_defs)
  have h2: "deleteRendered (run [Settles 0 (Fulfilled (Some abc_note))] (mount (Some ''abc'')))"
    by (simp add: eval_defs)
  show ?thesis
    using delete_targets_route_id [of ?s True "Some ''abc''" "[Settles 0 (Fulfilled (Some abc_note)), ClickDelete True]"]
      delete_targets_route_id [of ?s True "Some ''abc''" "[Settles 0 (Fulfilled (Some abc_note))]"]
      h1 h2 c
    by simp
qed

subsection \<open>The status after a failed manual save\<close>

text \<open>
  C1, at the input where the code departs from it: a manual save of the content
  \<open>Hello\<close> whose call is rejected. The status is \<open>Saving\<close> while the call is in
  flight, and \<open>Saved\<close> after the rejection, next to the error message; a debounced
  save rejected in the same way ends \<open>Unsaved\<close>.
\<close>

theorem manual_save_failure_shows_saved:
  "autoSaveStatus (run [SetContent ''Hello'', ClickSave] (mount None)) = Saving
   \<and> autoSaveStatus (run [SetContent ''Hello'', ClickSave, Settles 0 (Rejected ''boom'')] (mount None)) = Saved
   \<and> getAutoSaveText (run [SetContent ''Hello'', ClickSave, Settles 0 (Rejected ''boom'')] (mount None))
       = ''All changes saved''
   \<and> error (run [SetContent ''Hello'', ClickSave, Settles 0 (Rejected ''boom'')] (mount None)) = Some ''boom''
   \<and> autoSaveStatus (run [SetContent ''Hello'', Elapse 3000, TimerFires 1, Settles 0 (Rejected ''boom'')] (mount None))
       = Unsaved"
  by (simp add: eval_defs)

subsection \<open>At most one save in flight\<close>

lemma saving_no_timers: "coordinated s \<Longrightarrow> saving s \<Longrightarrow> timers s = []"
  by (auto simp: coordinated_def timer_ok_def)

text \<open>
  C3. In every reachable state at most one create or edit call is in flight, and one is in
  flight only while \<open>saving\<close> is set. While \<open>saving\<close> is set no timer is pending, so
  the firing of any timer handle changes nothing (no call is started and none is queued),
  and the save button is disabled, so a click changes nothing either. The check at the top
  of \<open>handleAutoSave\<close> makes it a no-op whenever the \<open>saving\<close> or the status it reads
  says a save is running.
\<close>

theorem at_most_one_save_in_flight:
  assumes "s = run ins (mount rid)"
  shows "length (saves_in_flight s) \<le> 1
       \<and> (saves_in_flight s \<noteq> [] \<longrightarrow> saving s)
       \<and> (saving s \<longrightarrow>
            (\<forall>h. step (TimerFires h) s = s) \<and> saveDisabled s \<and> step ClickSave s = s)
       \<and> (c_saving c \<or> c_autoSaveStatus c = Saving \<longrightarrow> handleAutoSave c s' = s')"
proof -
  have c: "coordinated s" unfolding assms by (rule coordinated_run)
  have 1: "length (saves_in_flight s) \<le> 1" using c by (auto simp: coordinated_def split: if_splits)
  have 2: "saves_in_flight s \<noteq> [] \<longrightarrow> saving s" using c by (auto simp: coordinated_def split: if_splits)
  have 3: "saving s \<longrightarrow> (\<forall>h. step (TimerFires h) s = s) \<and> saveDisabled s \<and> step ClickSave s = s"
    using saving_no_timers [OF c] by (auto simp: saveDisabled_def)
  have 4: "c_saving c \<or> c_autoSaveStatus c = Saving \<longrightarrow> handleAutoSave c s' = s'"
    by (auto simp: handleAutoSave_def)
  show ?thesis using 1 2 3 4 by blast
qed

theorem at_most_one_save_in_flight_witness:
  "saving (run [SetContent ''Hello'', ClickSave] (mount None))
   \<and> saves_in_flight (run [SetContent ''Hello'', ClickSave] (mount None))
       = [\<lparr>req_id = 0, req_origin = FromHandleSave, req_call = CreateNote None ''Hello''\<rparr>]
   \<and> run [SetContent ''Hello'', ClickSave, TimerFires 1] (mount None) = run [SetContent ''Hello'', ClickSave] (mount None)
   \<and> run [SetContent ''Hello'', ClickSave, ClickSave] (mount None) = run [SetContent ''Hello'', ClickSave] (mount None)
   \<and> handleAutoSave \<lparr>c_title = [], c_content = ''Hello'', c_saving = True, c_autoSaveStatus = Saving\<rparr>
        (run [SetContent ''Hello'', ClickSave] (mount None)) = run [SetContent ''Hello'', ClickSave] (mount None)"
proof -
  let ?s = "run [SetContent ''Hello'', ClickSave] (mount None)"
  let ?c = "\<lparr>c_title = [], c_content = ''Hello'', c_saving = True, c_autoSaveStatus = Saving\<rparr>"
  have h1: "saving ?s" by (simp add: eval_defs)
  have h2: "saves_in_flight ?s = [\<lparr>req_id = 0, req_origin = FromHandleSave, req_call = CreateNote None ''Hello''\<rparr>]"
    by (simp add: eval_defs)
  have h3: "c_saving ?c \<or> c_autoSaveStatus ?c = Saving" by simp
  show ?thesis
    using at_most_one_save_in_flight [of ?s "[SetContent ''Hello'', ClickSave]" None ?c ?s] h1 h2 h3
    by (simp add: run_def)
qed

subsection \<open>The empty draft\<close>

lemma save_calls_step_blank:
  assumes "timers s = []" "content s = []"
  shows "save_calls (trace (step i s)) = save_calls (trace s)"
proof (cases i)
  case (Settles r out)
  then show ?thesis
    by (auto simp: handler_defs Let_def save_calls_def
      split: option.splits outcome.splits origin.splits api_call.splits)
qed (use assms in \<open>auto simp: handler_defs Let_def save_calls_def saveDisabled_def trim_def split: option.splits\<close>)

lemma empty_draft_no_timers:
  "coordinated s \<Longrightarrow> title s = [] \<Longrightarrow> content s = [] \<Longrightarrow> timers s = []"
  by (auto simp: coordinated_def timer_ok_def)

text \<open>
  C8. With title and content both empty, the debounce effect arms no timer and leaves the
  status as it is; a title or content change that leaves the draft fully empty leaves the
  status as it is. In every reachable state whose draft is fully empty no timer is pending,
  and no input produces a create or edit call from it.
\<close>

theorem empty_draft_is_inert:
  "(title s' = [] \<and> content s' = [] \<longrightarrow>
      autoSaveStatus (autoSaveEffect s') = autoSaveStatus s'
      \<and> set (timers (autoSaveEffect s')) \<subseteq> set (timers s')
      \<and> next_handle (autoSaveEffect s') = next_handle s')
   \<and> ((m = SetTitle v \<or> m = SetContent v) \<and> title (step m s') = [] \<and> content (step m s') = [] \<longrightarrow>
        autoSaveStatus (step m s') = autoSaveStatus s')
   \<and> (s = run ins (mount rid) \<and> title s = [] \<and> content s = [] \<longrightarrow>
        timers s = [] \<and> (\<forall>i. save_calls (trace (step i s)) = save_calls (trace s)))"
proof (intro conjI impI)
  assume "title s' = [] \<and> content s' = []"
  then show "autoSaveStatus (autoSaveEffect s') = autoSaveStatus s'"
    and "set (timers (autoSaveEffect s')) \<subseteq> set (timers s')"
    and "next_handle (autoSaveEffect s') = next_handle s'"
    by (auto simp: prim_defs Let_def split: option.splits)
next
  assume "(m = SetTitle v \<or> m = SetContent v) \<and> title (step m s') = [] \<and> content (step m s') = []"
  then show "autoSaveStatus (step m s') = autoSaveStatus s'"
    by (auto simp: prim_defs Let_def split: option.splits if_splits)
next
  assume a: "s = run ins (mount rid) \<and> title s = [] \<and> content s = []"
  have s: "s = run ins (mount rid)" using a by blast
  have t0: "title s = []" using a by blast
  have c0: "content s = []" using a by blast
  have c: "coordinated s" unfolding s by (rule coordinated_run)
  show t: "timers s = []" using c t0 c0 by (rule empty_draft_no_timers)
  show "\<forall>i. save_calls (trace (step i s)) = save_calls (trace s)"
    using t c0 by (simp add: save_calls_step_blank)
qed

theorem empty_draft_is_inert_witness:
  "autoSaveStatus (step (SetTitle []) (run [SetTitle ''X''] (mount None)))
     = autoSaveStatus (run [SetTitle ''X''] (mount None))
   \<and> autoSaveStatus (run [SetTitle ''X''] (mount None)) = Unsaved
   \<and> timers (run [SetTitle ''X'', SetTitle []] (mount None)) = []
   \<and> save_calls (trace (step (TimerFires 1) (run [SetTitle ''X'', SetTitle []] (mount None))))
     = save_calls (trace (run [SetTitle ''X'', SetTitle []] (mount None)))
   \<and> autoSaveStatus (autoSaveEffect (mount None)) = autoSaveStatus (mount None)"
proof -
  let ?s1 = "run [SetTitle ''X''] (mount None)"
  let ?s = "run [SetTitle ''X'', SetTitle []] (mount None)"
  note I1 = empty_draft_is_inert [where s' = "mount None" and m = "SetTitle []" and v = "[]"
      and s = ?s and ins = "[SetTitle ''X'', SetTitle []]" and rid = None]
  note I2 = empty_draft_is_inert [where s' = ?s1 and m = "SetTitle []" and v = "[]"
      and s = ?s and ins = "[SetTitle ''X'', SetTitle []]" and rid = None]
  have h1: "title (mount None) = [] \<and> content (mount None) = []" by (simp add: eval_defs)
  have h2: "(SetTitle [] = SetTitle [] \<or> SetTitle [] = SetContent [])
      \<and> title (step (SetTitle []) ?s1) = [] \<and> content (step (SetTitle []) ?s1) = []"
    by (simp add: eval_defs)
  have "title ?s = []" and "content ?s = []" by (simp_all add: eval_defs)
  then have h3: "?s = run [SetTitle ''X'', SetTitle []] (mount None) \<and> title ?s = [] \<and> content ?s = []"
    by blast
  have u: "autoSaveStatus ?s1 = Unsaved" by (simp add: eval_defs)
  from I1 h1 have A: "autoSaveStatus (autoSaveEffect (mount None)) = autoSaveStatus (mount None)"
    by blast
  from I2 h2 have B: "autoSaveStatus (step (SetTitle []) ?s1) = autoSaveStatus ?s1"
    by blast
  from I1 h3 have C: "timers ?s = []"
    and D: "save_calls (trace (step (TimerFires 1) ?s)) = save_calls (trace ?s)"
    by blast+
  show ?thesis using A B C D u by blast
qed

subsection \<open>Debounce\<close>

text \<open>
  C4 as stated fails. A change of the title alone arms a timer whose firing makes no call,
  since the content is blank after trimming; and a change made while a manual save is in
  flight arms no timer at all.
\<close>

theorem debounce_title_only_counterexample:
  "timers (run [SetTitle ''X''] (mount None))
     = [\<lparr>t_handle = 1, t_due = 3000,
         t_callback = \<lparr>c_title = ''X'', c_content = [], c_saving = False, c_autoSaveStatus = Saved\<rparr>\<rparr>]
   \<and> timers (run [SetTitle ''X'', Elapse 3000, TimerFires 1] (mount None)) = []
   \<and> trace (run [SetTitle ''X'', Elapse 3000, TimerFires 1] (mount None)) = []
   \<and> saving (run [SetContent ''a'', ClickSave] (mount None))
   \<and> content (run [SetContent ''a'', ClickSave, SetContent ''ab''] (mount None)) = ''ab''
   \<and> timers (run [SetContent ''a'', ClickSave, SetContent ''ab''] (mount None)) = []"
  by (simp add: eval_defs)

lemma mutation_timers:
  assumes c: "coordinated s" and m: "is_mutation m s" and d: "mounted s" "\<not> loading s"
  shows "timers (step m s) =
           (if (title (step m s) = [] \<and> content (step m s) = []) \<or> saving s then []
            else [\<lparr>t_handle = next_handle s, t_due = now s + 3000,
                   t_callback = \<lparr>c_title = title (step m s), c_content = content (step m s),
                                 c_saving = False, c_autoSaveStatus = autoSaveStatus s\<rparr>\<rparr>])"
proof (cases m)
  case (SetTitle v)
  then show ?thesis using c m d
    by (auto simp: coordinated_def timer_ok_def is_mutation_def prim_defs Let_def debounce_delay_def
        split: option.splits)
next
  case (SetContent v)
  then show ?thesis using c m d
    by (auto simp: coordinated_def timer_ok_def is_mutation_def prim_defs Let_def debounce_delay_def
        split: option.splits)
qed (use m in \<open>simp_all add: is_mutation_def\<close>)

lemma pending_timer_fires:
  assumes c: "coordinated s" and t: "t \<in> set (timers s)"
  shows "timers s = [t] \<and> c_title (t_callback t) = title s \<and> c_content (t_callback t) = content s
       \<and> (now s < t_due t \<longrightarrow> step (TimerFires (t_handle t)) s = s)
       \<and> (t_due t \<le> now s \<longrightarrow>
            timers (step (TimerFires (t_handle t)) s) = []
            \<and> trace (step (TimerFires (t_handle t)) s)
                = trace s @ (if trim (content s) = [] then [] else [Called (draft_call s)]))"
proof -
  have one: "timers s = [t]" and ok: "timer_ok s t"
    using c t by (auto simp: coordinated_def)
  have f: "find (\<lambda>u. t_handle u = t_handle t) (timers s) = Some t"
    by (simp add: one)
  show ?thesis using one ok f
    by (auto simp: timer_ok_def handleAutoSave_def call_api_def draft_call_def js_or_def truthy_def Let_def
        split: option.splits)
qed

lemma manual_save_sets_saving:
  assumes c: "coordinated s" and m: "manual_save_in_flight s"
  shows "saving s"
proof -
  obtain p where pin: "p \<in> set (pending s)" and o: "req_origin p = FromHandleSave"
    using m by (auto simp: manual_save_in_flight_def list_ex_iff)
  have "is_save (req_call p)" using c pin o by (simp add: coordinated_def)
  then have "saves_in_flight s \<noteq> []" using pin
    by (auto simp: saves_in_flight_def filter_empty_conv)
  then show ?thesis using c by (auto simp: coordinated_def split: if_splits)
qed

text \<open>
  An edit made while a debounced save is in flight. The effect returns at its check of
  \<open>saving\<close>, whose comment speaks of manual saving, and nothing arms a timer when the
  save settles. The only call carries the draft before the edit, and the status ends
  \<open>Saved\<close> over a draft that was not persisted. The statement that follows leaves
  this case out.
\<close>

lemma edit_during_debounced_save:
  "trace (run [SetContent ''a'', Elapse 3000, TimerFires 1, SetContent ''ab'',
               Settles 0 (Fulfilled (Some n1_note))] (mount None))
     = [Called (CreateNote None ''a''),
        Returned (CreateNote None ''a'') (Fulfilled (Some n1_note)),
        ReplacedState ''/dashboard/edit-note/n1'']
   \<and> content (run [SetContent ''a'', Elapse 3000, TimerFires 1, SetContent ''ab'',
               Settles 0 (Fulfilled (Some n1_note))] (mount None)) = ''ab''
   \<and> timers (run [SetContent ''a'', Elapse 3000, TimerFires 1, SetContent ''ab'',
               Settles 0 (Fulfilled (Some n1_note))] (mount None)) = []
   \<and> autoSaveStatus (run [SetContent ''a'', Elapse 3000, TimerFires 1, SetContent ''ab'',
               Settles 0 (Fulfilled (Some n1_note))] (mount None)) = Saved"
  by (simp add: eval_defs)

text \<open>
  C4, amended. In every reachable state, for a change of title or content that is
  delivered: when no save is in progress it cancels the pending timer and, unless the
  draft is then fully empty, arms one fresh timer due 3000 ms later, which closes over the
  draft as changed; when a manual save is in flight it arms none. What a change does while
  a debounced save is in flight is not part of the statement. A pending timer is the only
  one and holds the current draft; fired before it is due it does nothing; fired when due
  it leaves no timer pending and makes exactly one call, the create or edit call of the
  trimmed current draft, or no call when the content is blank after trimming.
\<close>

theorem debounce_coalesces:
  assumes "s = run ins (mount rid)"
  shows "(is_mutation m s \<and> mounted s \<and> \<not> loading s \<and> \<not> saving s \<longrightarrow>
            timers (step m s) =
              (if title (step m s) = [] \<and> content (step m s) = [] then []
               else [\<lparr>t_handle = next_handle s, t_due = now s + 3000,
                      t_callback = \<lparr>c_title = title (step m s), c_content = content (step m s),
                                    c_saving = False, c_autoSaveStatus = autoSaveStatus s\<rparr>\<rparr>]))
       \<and> (is_mutation m s \<and> mounted s \<and> \<not> loading s \<and> manual_save_in_flight s \<longrightarrow>
            timers (step m s) = [])
       \<and> (t \<in> set (timers s) \<longrightarrow>
            timers s = [t] \<and> c_title (t_callback t) = title s \<and> c_content (t_callback t) = content s
            \<and> (now s < t_due t \<longrightarrow> step (TimerFires (t_handle t)) s = s)
            \<and> (t_due t \<le> now s \<longrightarrow>
                 timers (step (TimerFires (t_handle t)) s) = []
                 \<and> trace (step (TimerFires (t_handle t)) s)
                     = trace s @ (if trim (content s) = [] then [] else [Called (draft_call s)])))"
proof -
  have c: "coordinated s" unfolding assms by (rule coordinated_run)
  have 1: "is_mutation m s \<and> mounted s \<and> \<not> loading s \<and> \<not> saving s \<longrightarrow>
            timers (step m s) =
              (if title (step m s) = [] \<and> content (step m s) = [] then []
               else [\<lparr>t_handle = next_handle s, t_due = now s + 3000,
                      t_callback = \<lparr>c_title = title (step m s), c_content = content (step m s),
                                    c_saving = False, c_autoSaveStatus = autoSaveStatus s\<rparr>\<rparr>])"
    using mutation_timers [OF c, of m] by simp
  have 2: "is_mutation m s \<and> mounted s \<and> \<not> loading s \<and> manual_save_in_flight s \<longrightarrow>
            timers (step m s) = []"
    using mutation_timers [OF c, of m] manual_save_sets_saving [OF c] by simp
  show ?thesis using 1 2 pending_timer_fires [OF c] by blast
qed

theorem debounce_coalesces_witness:
  "timers (step (SetContent ''abc'') (run [SetContent ''a'', Elapse 500, SetContent ''ab'', Elapse 400] (mount None)))
     = [\<lparr>t_handle = 3, t_due = 3900,
         t_callback = \<lparr>c_title = [], c_content = ''abc'', c_saving = False, c_autoSaveStatus = Unsaved\<rparr>\<rparr>]
   \<and> step (TimerFires 3)
        (run [SetContent ''a'', Elapse 500, SetContent ''ab'', Elapse 400, SetContent ''abc'', Elapse 2999] (mount None))
     = run [SetContent ''a'', Elapse 500, SetContent ''ab'', Elapse 400, SetContent ''abc'', Elapse 2999] (mount None)
   \<and> trace (step (TimerFires 3)
        (run [SetContent ''a'', Elapse 500, SetContent ''ab'', Elapse 400, SetContent ''abc'', Elapse 3000] (mount None)))
     = [Called (CreateNote None ''abc'')]
   \<and> manual_save_in_flight (run [SetContent ''a'', ClickSave] (mount None))
   \<and> timers (step (SetContent ''ab'') (run [SetContent ''a'', ClickSave] (mount None))) = []"
proof -
  let ?t = "\<lparr>t_handle = 3, t_due = 3900,
         t_callback = \<lparr>c_title = [], c_content = ''abc'', c_saving = False, c_autoSaveStatus = Unsaved\<rparr>\<rparr>"
  let ?i0 = "[SetContent ''a'', Elapse 500, SetContent ''ab'', Elapse 400]"
  let ?i1 = "[SetContent ''a'', Elapse 500, SetContent ''ab'', Elapse 400, SetContent ''abc'', Elapse 2999]"
  let ?i2 = "[SetContent ''a'', Elapse 500, SetContent ''ab'', Elapse 400, SetContent ''abc'', Elapse 3000]"
  let ?i3 = "[SetContent ''a'', ClickSave]"
  let ?s0 = "run ?i0 (mount None)"
  let ?s1 = "run ?i1 (mount None)"
  let ?s2 = "run ?i2 (mount None)"
  let ?s3 = "run ?i3 (mount None)"
  note I0 = debounce_coalesces [where s = ?s0 and ins = ?i0 and rid = None
      and m = "SetContent ''abc''" and t = ?t, OF refl]
  note I1 = debounce_coalesces [where s = ?s1 and ins = ?i1 and rid = None
      and m = "SetContent ''abc''" and t = ?t, OF refl]
  note I2 = debounce_coalesces [where s = ?s2 and ins = ?i2 and rid = None
      and m = "SetContent ''abc''" and t = ?t, OF refl]
  note I3 = debounce_coalesces [where s = ?s3 and ins = ?i3 and rid = None
      and m = "SetContent ''ab''" and t = ?t, OF refl]
  have h0: "is_mutation (SetContent ''abc'') ?s0 \<and> mounted ?s0 \<and> \<not> loading ?s0 \<and> \<not> saving ?s0"
    by (simp add: eval_defs)
  have e0: "title (step (SetContent ''abc'') ?s0) = []" "content (step (SetContent ''abc'') ?s0) = ''abc''"
    "next_handle ?s0 = 3" "now ?s0 = 900" "autoSaveStatus ?s0 = Unsaved"
    by (simp_all add: eval_defs)
  from I0 h0 have "timers (step (SetContent ''abc'') ?s0) =
       (if title (step (SetContent ''abc'') ?s0) = [] \<and> content (step (SetContent ''abc'') ?s0) = [] then []
        else [\<lparr>t_handle = next_handle ?s0, t_due = now ?s0 + 3000,
               t_callback = \<lparr>c_title = title (step (SetContent ''abc'') ?s0),
                             c_content = content (step (SetContent ''abc'') ?s0),
                             c_saving = False, c_autoSaveStatus = autoSaveStatus ?s0\<rparr>\<rparr>])"
    by blast
  then have A: "timers (step (SetContent ''abc'') ?s0) = [?t]"
    by (simp only: e0) simp
  have h1: "?t \<in> set (timers ?s1)" "now ?s1 < t_due ?t" by (simp_all add: eval_defs)
  from I1 h1 have B: "step (TimerFires (t_handle ?t)) ?s1 = ?s1" by blast
  have h2: "?t \<in> set (timers ?s2)" "t_due ?t \<le> now ?s2" by (simp_all add: eval_defs)
  have e2: "trace ?s2 = []" "trim (content ?s2) = ''abc''" "draft_call ?s2 = CreateNote None ''abc''"
    by (simp_all add: eval_defs)
  from I2 h2 have "trace (step (TimerFires (t_handle ?t)) ?s2)
      = trace ?s2 @ (if trim (content ?s2) = [] then [] else [Called (draft_call ?s2)])"
    by blast
  then have C: "trace (step (TimerFires (t_handle ?t)) ?s2) = [Called (CreateNote None ''abc'')]"
    by (simp only: e2) simp
  have h3: "is_mutation (SetContent ''ab'') ?s3 \<and> mounted ?s3 \<and> \<not> loading ?s3
      \<and> manual_save_in_flight ?s3"
    by (simp add: eval_defs manual_save_in_flight_def)
  then have D: "manual_save_in_flight ?s3" by blast
  from I3 h3 have E: "timers (step (SetContent ''ab'') ?s3) = []" by blast
  have hd: "t_handle ?t = 3" by simp
  show ?thesis using A B C D E unfolding hd by blast
qed

subsection \<open>Create once, then edit\<close>

lemma promoted_snoc [simp]: "promoted (tr @ [e]) = observe (promoted tr) e"
  by (simp add: promoted_def)

lemma promoted_snoc2 [simp]: "promoted (tr @ [e, e']) = observe (observe (promoted tr) e) e'"
  by (simp add: promoted_def)

lemma successful_creates_snoc [simp]:
  "successful_creates (tr @ es) = successful_creates tr + successful_creates es"
  by (simp add: successful_creates_def)

lemma successful_edits_snoc [simp]:
  "successful_edits (tr @ es) = successful_edits tr + successful_edits es"
  by (simp add: successful_edits_def)

lemma create_calls_snoc [simp]:
  "create_calls (tr @ es) = create_calls tr + create_calls es"
  by (simp add: create_calls_def)

lemma rejected_creates_snoc [simp]:
  "rejected_creates (tr @ es) = rejected_creates tr + rejected_creates es"
  by (simp add: rejected_creates_def)

lemmas count_defs = successful_creates_def successful_edits_def create_calls_def rejected_creates_def

lemma promo_init: "\<not> truthy rid \<Longrightarrow> promo_ok (mount rid)"
  by (auto simp: promo_ok_def mount_def init_def promoted_def truthy_def isEditing_def prim_defs
      count_defs saves_in_flight_def Let_def split: option.splits)

lemma promo_frame:
  assumes "promo_ok s"
    and "trace s' = trace s" "createdNoteIdRef s' = createdNoteIdRef s" "pending s' = pending s"
    and "\<not> mounted s \<and> timers s = [] \<and> \<not> saving s
         \<longrightarrow> \<not> mounted s' \<and> timers s' = [] \<and> \<not> saving s'"
  shows "promo_ok s'"
  using assms by (auto simp: promo_ok_def split: promotion.splits)

lemma rerender_fields [simp]:
  "createdNoteIdRef (rerender s s') = createdNoteIdRef s'"
  "pending (rerender s s') = pending s'"
  "mounted (rerender s s') = mounted s'"
  "saving (rerender s s') = saving s'"
  by (simp_all add: prim_defs Let_def split: option.splits)

lemma rerender_unmounted: "\<not> mounted s' \<Longrightarrow> rerender s s' = s'"
  by (simp add: rerender_def)

lemma promo_rerender:
  assumes "promo_ok s'"
  shows "promo_ok (rerender s s')"
  using assms
  by (rule promo_frame) (auto simp: rerender_unmounted)

lemma promo_SetTitle: "promo_ok s \<Longrightarrow> promo_ok (step (SetTitle v) s)"
  by (auto intro!: promo_rerender elim: promo_frame)

lemma promo_SetContent: "promo_ok s \<Longrightarrow> promo_ok (step (SetContent v) s)"
  by (auto intro!: promo_rerender elim: promo_frame)

lemma promo_fetchNote_settled:
  assumes "promo_ok s"
  shows "promo_ok (fetchNote_settled out s)"
  unfolding fetchNote_settled_def Let_def
  by (rule promo_rerender, rule promo_frame [OF assms])
     (simp_all split: outcome.splits option.splits)

lemma navigate_fields [simp]:
  "createdNoteIdRef (navigate p s) = createdNoteIdRef s"
  "pending (navigate p s) = pending s"
  "\<not> mounted (navigate p s)"
  "saving (navigate p s) = saving s"
  "timers s = [] \<Longrightarrow> timers (navigate p s) = []"
  by (simp_all add: prim_defs Let_def split: option.splits)

lemma promo_append_other:
  assumes "promo_ok s" "\<not> is_save_call e" "\<forall>c out. e \<noteq> Returned c out"
  shows "promo_ok (s\<lparr>trace := trace s @ [e]\<rparr>)"
proof -
  have "observe p e = p" for p
    using assms(2,3) by (cases e; cases p) (auto elim: is_save.elims)
  moreover have "\<not> is_created e" "\<not> is_edited e" "\<not> is_create_call e" "\<not> is_rejected_create e"
    using assms(2,3) by (cases e; auto elim: is_save.elims is_create_call.elims)+
  ultimately show ?thesis using assms(1)
    by (auto simp: promo_ok_def count_defs split: promotion.splits)
qed

lemma promo_navigate:
  assumes "promo_ok s"
  shows "promo_ok (navigate p s)"
proof -
  have "promo_ok (s\<lparr>trace := trace s @ [Navigated p]\<rparr>)"
    using assms by (rule promo_append_other) simp_all
  then show ?thesis
    by (rule promo_frame) (simp_all add: navigate_def unmount_def run_cleanup_def clearTimeout_def split: option.splits)
qed

lemma promo_ClickCancel: "promo_ok s \<Longrightarrow> promo_ok (step ClickCancel s)"
  by (simp add: promo_navigate)

lemma promo_handleDelete_settled:
  assumes "promo_ok s"
  shows "promo_ok (handleDelete_settled out s)"
proof (cases out)
  case (Fulfilled r)
  have "promo_ok (navigate ''/dashboard'' s)" using assms by (rule promo_navigate)
  then show ?thesis unfolding handleDelete_settled_def Let_def Fulfilled
    by (rule promo_frame) simp_all
next
  case (Rejected m)
  show ?thesis unfolding handleDelete_settled_def Let_def Rejected
    by (rule promo_frame [OF assms]) simp_all
qed

lemma promo_issue:
  assumes ok: "promo_ok s" and nr: "\<not> truthy (route_id s)"
    and alive: "mounted s \<or> timers s \<noteq> []"
    and fr: "trace s' = trace s" "createdNoteIdRef s' = createdNoteIdRef s"
      "pending s' = pending s" "route_id s' = route_id s"
  shows "promo_ok
    (case js_or (createdNoteIdRef s') (route_id s') of
       Some noteId \<Rightarrow>
         if noteId \<noteq> [] then call_api from (EditNote noteId t x) s'
         else call_api from (CreateNote t x) s'
     | None \<Rightarrow> call_api from (CreateNote t x) s')"
  using assms
  by (auto simp: promo_ok_def call_api_def js_or_def truthy_def count_defs
      split: promotion.splits option.splits)

lemma promo_ClickSave:
  assumes "promo_ok s" "\<not> truthy (route_id s)"
  shows "promo_ok (step ClickSave s)"
proof (cases "mounted s \<and> \<not> saveDisabled s")
  case True
  then have nb: "trim (content s) \<noteq> []" by (simp add: saveDisabled_def)
  have "promo_ok (handleSave s)"
    unfolding handleSave_def Let_def using nb
    by (simp only: if_False) (rule promo_issue [OF assms], use True in \<open>simp_all add: clearTimeout_def split: option.splits\<close>)
  then show ?thesis using True by simp
next
  case False
  then show ?thesis using assms by auto
qed

lemma promo_TimerFires:
  assumes "promo_ok s" "\<not> truthy (route_id s)"
  shows "promo_ok (step (TimerFires h) s)"
proof (cases "find (\<lambda>t. t_handle t = h) (timers s)")
  case None
  then show ?thesis using assms by simp
next
  case (Some t)
  then have ne: "timers s \<noteq> []" by auto
  let ?s0 = "s\<lparr>timers := filter (\<lambda>u. t_handle u \<noteq> h) (timers s)\<rparr>"
  have "promo_ok (handleAutoSave (t_callback t) ?s0)"
  proof (cases "trim (c_content (t_callback t)) = [] \<or> c_saving (t_callback t)
      \<or> c_autoSaveStatus (t_callback t) = Saving")
    case True
    then have "handleAutoSave (t_callback t) ?s0 = ?s0" by (auto simp: handleAutoSave_def)
    moreover have "promo_ok ?s0" using assms(1) ne by (auto simp: promo_ok_def split: promotion.splits)
    ultimately show ?thesis by simp
  next
    case False
    let ?s1 = "?s0\<lparr>autoSaveStatus := Saving, saving := True\<rparr>"
    let ?t = "or_undefined (trim (c_title (t_callback t)))"
    let ?x = "trim (c_content (t_callback t))"
    have eq: "handleAutoSave (t_callback t) ?s0 =
        (case js_or (createdNoteIdRef ?s1) (route_id ?s1) of
           Some noteId \<Rightarrow>
             if noteId \<noteq> [] then call_api FromHandleAutoSave (EditNote noteId ?t ?x) ?s1
             else call_api FromHandleAutoSave (CreateNote ?t ?x) ?s1
         | None \<Rightarrow> call_api FromHandleAutoSave (CreateNote ?t ?x) ?s1)"
      using False by (simp add: handleAutoSave_def Let_def)
    show ?thesis unfolding eq
      by (rule promo_issue [OF assms]) (use ne in simp_all)
  qed
  then show ?thesis using Some assms by (simp split: if_splits)
qed

lemma promo_call_other:
  assumes "promo_ok s" "\<not> is_save c"
  shows "promo_ok (call_api from c s)"
proof -
  have "observe p (Called c) = p" for p
    using assms(2) by (cases c; cases p) auto
  moreover have "\<not> is_create_call (Called c)"
    using assms(2) by (cases c) auto
  ultimately show ?thesis using assms
    by (auto simp: promo_ok_def call_api_def count_defs split: promotion.splits)
qed

lemma promo_ClickDelete:
  assumes "promo_ok s"
  shows "promo_ok (step (ClickDelete a) s)"
proof -
  have c: "promo_ok (s\<lparr>trace := trace s @ [Confirmed confirm_prompt a]\<rparr>)"
    using assms by (rule promo_append_other) simp_all
  then have l: "promo_ok (s\<lparr>trace := trace s @ [Confirmed confirm_prompt a], loading := True\<rparr>)"
    by (rule promo_frame) simp_all
  have d: "promo_ok (call_api FromHandleDelete (DeleteNote i)
      (s\<lparr>trace := trace s @ [Confirmed confirm_prompt a], loading := True\<rparr>))" for i
    using l by (rule promo_call_other) simp
  show ?thesis using assms c d
    by (cases a; simp add: handleDelete_def Let_def split: option.splits)
qed

lemma promo_Elapse: "promo_ok s \<Longrightarrow> promo_ok (step (Elapse d) s)"
  by (auto simp: promo_ok_def split: promotion.splits)

lemma observe_other: "\<not> is_save c \<Longrightarrow> observe p (Returned c out) = p"
  by (cases c; cases p) simp_all

lemma promo_removed_other:
  assumes "promo_ok s" "coordinated s" "p \<in> set (pending s)" "\<not> is_save (req_call p)"
  shows "promo_ok (s\<lparr>pending := filter (\<lambda>q. req_id q \<noteq> req_id p) (pending s),
                    trace := trace s @ [Returned (req_call p) out]\<rparr>)"
proof -
  have d: "distinct (map req_id (pending s))" using assms(2) by (simp add: coordinated_def)
  have f: "filter (\<lambda>q. req_id q \<noteq> req_id p \<and> is_save (req_call q)) (pending s)
        = filter (\<lambda>p. is_save (req_call p)) (pending s)"
    using d assms(3,4) by (rule filter_settled_other)
  show ?thesis using assms(1,4) f
    by (cases "req_call p")
       (auto simp: promo_ok_def observe_other count_defs split: promotion.splits)
qed

lemma promo_handleAutoSave_settled:
  "promo_mid c out s \<Longrightarrow> promo_ok (handleAutoSave_settled c out s)"
  by (auto simp: promo_ok_def promo_mid_def handleAutoSave_settled_def count_defs saves_in_flight_def
      split: promotion.splits outcome.splits)

lemma promo_handleSave_settled:
  "promo_mid c out s \<Longrightarrow> promo_ok (handleSave_settled out s)"
  by (auto simp: promo_ok_def promo_mid_def handleSave_settled_def prim_defs count_defs saves_in_flight_def
      split: promotion.splits outcome.splits option.splits)

lemma promo_removed_save:
  assumes ok: "promo_ok s" and co: "coordinated s" and pin: "p \<in> set (pending s)"
    and sv: "is_save (req_call p)"
    and ri: "returns_identity (Returned (req_call p) out)"
  shows "promo_mid (req_call p) out
           (s\<lparr>pending := filter (\<lambda>q. req_id q \<noteq> req_id p) (pending s),
              trace := trace s @ [Returned (req_call p) out]\<rparr>)"
proof -
  let ?s1 = "s\<lparr>pending := filter (\<lambda>q. req_id q \<noteq> req_id p) (pending s),
              trace := trace s @ [Returned (req_call p) out]\<rparr>"
  have st: "settling ?s1" using co pin sv by (rule coordinated_removed_save)
  then have a: "saving ?s1" and b: "timers ?s1 = []"
    and c: "\<forall>q \<in> set (pending ?s1). \<not> is_save (req_call q)"
    by (auto simp: settling_def timer_ok_def saves_in_flight_def filter_empty_conv)
  have sav: "saving s" using a by simp
  then obtain q where one: "saves_in_flight s = [q]" using co by (auto simp: coordinated_def)
  have none: "saves_in_flight ?s1 = []" using st by (simp add: settling_def)
  show ?thesis
  proof (cases "promoted (trace s)")
    case NoIdentity
    then obtain t x where call: "req_call p = CreateNote t x" using ok pin sv
      by (auto simp: promo_ok_def)
    show ?thesis
    proof (cases out)
      case (Fulfilled r)
      then obtain d where "r = Some d" "note_id d \<noteq> []" using ri call
        by (auto split: option.splits)
      then show ?thesis using NoIdentity call Fulfilled ok a b c one
        by (auto simp: promo_mid_def promo_ok_def count_defs saves_in_flight_def)
    next
      case (Rejected m)
      then show ?thesis using NoIdentity call ok a b c one
        by (auto simp: promo_mid_def promo_ok_def count_defs saves_in_flight_def)
    qed
  next
    case (Identity i)
    then obtain t x where call: "req_call p = EditNote i t x" using ok pin sv
      by (auto simp: promo_ok_def)
    have "createdNoteIdRef s = Some i \<and> i \<noteq> []" using ok Identity sav
      by (auto simp: promo_ok_def)
    then show ?thesis using Identity call ok a b c one
      by (auto simp: promo_mid_def promo_ok_def count_defs saves_in_flight_def)
  next
    case Violation
    then show ?thesis using ok by (simp add: promo_ok_def)
  qed
qed

lemma trace_settle:
  "\<exists>ext. trace (settle p out s) = trace s @ ext"
  by (auto simp: handler_defs Let_def
      split: option.splits outcome.splits origin.splits api_call.splits)

lemma trace_step:
  "\<exists>ext. trace (step i s) = trace s @ ext"
proof (cases i)
  case (Settles r out)
  show ?thesis
  proof (cases "find (\<lambda>p. req_id p = r) (pending s)")
    case None
    then show ?thesis using Settles by simp
  next
    case (Some p)
    obtain ext where "trace (settle p out
            (s\<lparr>pending := filter (\<lambda>q. req_id q \<noteq> r) (pending s),
               trace := trace s @ [Returned (req_call p) out]\<rparr>))
          = trace (s\<lparr>pending := filter (\<lambda>q. req_id q \<noteq> r) (pending s),
               trace := trace s @ [Returned (req_call p) out]\<rparr>) @ ext"
      using trace_settle by blast
    then show ?thesis using Settles Some by simp
  qed
qed (auto simp: handler_defs Let_def clearTimeout_def split: option.splits)

lemma promo_Settles:
  assumes ok: "promo_ok s" and co: "coordinated s"
    and ri: "list_all returns_identity (trace (step (Settles r out) s))"
  shows "promo_ok (step (Settles r out) s)"
proof (cases "find (\<lambda>p. req_id p = r) (pending s)")
  case None
  then show ?thesis using ok by simp
next
  case (Some p)
  then have pin: "p \<in> set (pending s)" and r: "r = req_id p" by (auto dest: find_SomeD)
  then have kind: "is_save (req_call p) = (req_origin p = FromHandleAutoSave \<or> req_origin p = FromHandleSave)"
    using co by (simp add: coordinated_def)
  let ?s1 = "s\<lparr>pending := filter (\<lambda>q. req_id q \<noteq> req_id p) (pending s),
               trace := trace s @ [Returned (req_call p) out]\<rparr>"
  have eq: "step (Settles r out) s = settle p out ?s1" using Some r by simp
  obtain ext where "trace (settle p out ?s1) = trace ?s1 @ ext"
    using trace_settle by blast
  then have ri1: "returns_identity (Returned (req_call p) out)"
    using ri unfolding eq by simp
  show ?thesis
  proof (cases "req_origin p")
    case FromFetchNote
    then have "promo_ok ?s1" using ok co pin kind by (intro promo_removed_other) auto
    then show ?thesis unfolding eq using FromFetchNote
      by (simp add: settle_def promo_fetchNote_settled)
  next
    case FromHandleAutoSave
    then have "promo_mid (req_call p) out ?s1" using ok co pin kind ri1
      by (intro promo_removed_save) auto
    then show ?thesis unfolding eq using FromHandleAutoSave
      by (simp add: settle_def promo_handleAutoSave_settled)
  next
    case FromHandleSave
    then have "promo_mid (req_call p) out ?s1" using ok co pin kind ri1
      by (intro promo_removed_save) auto
    then show ?thesis unfolding eq using FromHandleSave
      by (simp add: settle_def promo_handleSave_settled)
  next
    case FromHandleDelete
    then have "promo_ok ?s1" using ok co pin kind by (intro promo_removed_other) auto
    then show ?thesis unfolding eq using FromHandleDelete
      by (simp add: settle_def promo_handleDelete_settled)
  qed
qed

lemma promo_step:
  assumes "promo_ok s" "coordinated s" "\<not> truthy (route_id s)"
    and "list_all returns_identity (trace (step i s))"
  shows "promo_ok (step i s)"
  using assms
  by (cases i)
     (blast intro: promo_SetTitle promo_SetContent promo_ClickSave promo_ClickCancel
        promo_ClickDelete promo_Elapse promo_TimerFires promo_Settles)+

lemma promo_run:
  assumes "\<not> truthy rid"
  shows "list_all returns_identity (trace (run ins (mount rid))) \<Longrightarrow> promo_ok (run ins (mount rid))"
proof (induction ins rule: rev_induct)
  case Nil
  show ?case using assms by (simp add: run_Nil promo_init)
next
  case (snoc i ins)
  let ?s = "run ins (mount rid)"
  obtain ext where "trace (step i ?s) = trace ?s @ ext" using trace_step by blast
  then have "list_all returns_identity (trace ?s)" using snoc.prems by (simp add: run_snoc)
  then have "promo_ok ?s" by (rule snoc.IH)
  moreover have "coordinated ?s" by (rule coordinated_run)
  moreover have "\<not> truthy (route_id ?s)" using assms by simp
  moreover have "list_all returns_identity (trace (step i ?s))" using snoc.prems by (simp add: run_snoc)
  ultimately show ?case unfolding run_snoc by (rule promo_step)
qed

lemma example_session_trace:
  "trace (run example_session (mount None)) =
     [Called (CreateNote None ''Hello''),
      Returned (CreateNote None ''Hello'') (Rejected ''offline''),
      Called (CreateNote None ''Hello!''),
      Returned (CreateNote None ''Hello!'') (Fulfilled (Some n1_note)),
      ReplacedState ''/dashboard/edit-note/n1'',
      Called (EditNote ''n1'' None ''Hello!''),
      Returned (EditNote ''n1'' None ''Hello!'') (Fulfilled (Some n1_note)),
      Navigated ''/dashboard'']"
  by (simp add: example_session_def eval_defs n1_note_def)

text \<open>
  C2 as stated fails. A create that is rejected is tried again as a create, so a session
  with two successful saves can hold two \<open>createNote\<close> calls. A create fulfilled
  without an id in its response records nothing, and the next attempt creates again. A
  manual save whose create is fulfilled records nothing either: it leaves the editor.
\<close>

theorem single_create_counterexample:
  "create_calls (trace (run example_session (mount None))) = 2
   \<and> successful_creates (trace (run example_session (mount None)))
       + successful_edits (trace (run example_session (mount None))) = 2
   \<and> trace (run [SetContent ''Hello'', Elapse 3000, TimerFires 1, Settles 0 (Fulfilled None),
                  SetContent ''Hello!'', Elapse 3000, TimerFires 2] (mount None))
       = [Called (CreateNote None ''Hello''),
          Returned (CreateNote None ''Hello'') (Fulfilled None),
          Called (CreateNote None ''Hello!'')]
   \<and> createdNoteIdRef
         (run [SetContent ''Hello'', ClickSave, Settles 0 (Fulfilled (Some n1_note))] (mount None))
       = None
   \<and> \<not> mounted
         (run [SetContent ''Hello'', ClickSave, Settles 0 (Fulfilled (Some n1_note))] (mount None))"
  unfolding example_session_trace
  by (simp add: eval_defs count_defs n1_note_def)

text \<open>
  C2, amended. In a session that starts without a route id, and in which every fulfilled
  create returns an identity: every attempt before the first fulfilled create calls
  \<open>createNote\<close>; after it every attempt calls \<open>editNote\<close> with the identity it
  returned, and \<open>createNote\<close> is not called again; while the component is mounted that
  identity is the one held in \<open>createdNoteIdRef\<close>. So among S \<ge> 1 successful saves
  exactly one is a create and S - 1 are edits, and the create calls are that one and the
  rejected ones before it.
\<close>

theorem single_create:
  assumes "s = run ins (mount rid)" and "\<not> truthy rid"
    and "list_all returns_identity (trace s)"
  shows "promoted (trace s) \<noteq> Violation
       \<and> (promoted (trace s) = Identity i \<and> mounted s \<longrightarrow> createdNoteIdRef s = Some i)
       \<and> successful_creates (trace s) \<le> 1
       \<and> (1 \<le> successful_creates (trace s) + successful_edits (trace s) \<longrightarrow>
            successful_creates (trace s) = 1
            \<and> successful_edits (trace s)
                = successful_creates (trace s) + successful_edits (trace s) - 1
            \<and> create_calls (trace s) = rejected_creates (trace s) + 1)"
proof -
  have "promo_ok s" using assms promo_run by blast
  then show ?thesis
    by (auto simp: promo_ok_def split: promotion.splits)
qed

theorem single_create_witness:
  "\<not> truthy None
   \<and> list_all returns_identity (trace (run example_session (mount None)))
   \<and> promoted (trace (run example_session (mount None))) = Identity ''n1''
   \<and> promoted (trace (run example_session (mount None))) \<noteq> Violation
   \<and> successful_creates (trace (run example_session (mount None))) = 1
   \<and> successful_edits (trace (run example_session (mount None))) = 1
   \<and> create_calls (trace (run example_session (mount None))) = 2
   \<and> rejected_creates (trace (run example_session (mount None))) = 1"
proof -
  let ?s = "run example_session (mount None)"
  note tr = example_session_trace
  have h1: "\<not> truthy None" by (simp add: truthy_def)
  have h2: "list_all returns_identity (trace ?s)"
    unfolding tr by (simp add: n1_note_def)
  have e: "promoted (trace ?s) = Identity ''n1''"
    "successful_edits (trace ?s) = 1" "rejected_creates (trace ?s) = 1"
    unfolding tr by (simp_all add: promoted_def n1_note_def count_defs)
  note I = single_create [where s = ?s and ins = example_session and rid = None and i = "''n1''",
      OF refl h1 h2]
  have sum: "1 \<le> successful_creates (trace ?s) + successful_edits (trace ?s)"
    using e(2) by linarith
  from I sum have c1: "successful_creates (trace ?s) = 1"
    and cc: "create_calls (trace ?s) = rejected_creates (trace ?s) + 1"
    by blast+
  have c2: "create_calls (trace ?s) = 2" using cc e(3) by linarith
  have nv: "promoted (trace ?s) \<noteq> Violation" using I by blast
  show ?thesis using h1 h2 e c1 c2 nv by blast
qed

end
